theory Spec2Isabelle
  imports Main "HOL-Library.Sublist"
begin

section \<open>JavaScript values used by the translation pipeline\<close>

text \<open>
  A JavaScript string is modelled as a \<^typ>\<open>string\<close> (a list of code units), an optional
  value (\<open>undefined\<close>) as \<^typ>\<open>'a option\<close>, an array as a list. A promise either resolves
  with a value or rejects; an \<open>await\<close> of a rejected promise throws into the enclosing
  \<open>try\<close>.
\<close>

datatype 'a outcome = Resolves 'a | Rejects

text \<open>Truthiness of an optional string: \<open>undefined\<close> and the empty string are falsy.\<close>

definition truthy :: "string option \<Rightarrow> bool" where
  "truthy v = (case v of None \<Rightarrow> False | Some s \<Rightarrow> s \<noteq> [])"

text \<open>\<open>v || d\<close> on an optional string.\<close>

definition orElse :: "string option \<Rightarrow> string \<Rightarrow> string" where
  "orElse v d = (case v of None \<Rightarrow> d | Some s \<Rightarrow> if s = [] then d else s)"

definition nl :: string where
  "nl = [CHR 0x0A]"

definition dq :: string where
  "dq = [CHR 0x22]"

text \<open>\<open>s.indexOf(pat)\<close>: the index of the first occurrence, or \<open>-1\<close>.\<close>

fun firstOccurrence :: "string \<Rightarrow> string \<Rightarrow> nat option" where
  "firstOccurrence [] pat = (if pat = [] then Some 0 else None)"
| "firstOccurrence (x # xs) pat =
     (if prefix pat (x # xs) then Some 0 else map_option Suc (firstOccurrence xs pat))"

definition indexOf :: "string \<Rightarrow> string \<Rightarrow> int" where
  "indexOf s pat = (case firstOccurrence s pat of None \<Rightarrow> - 1 | Some i \<Rightarrow> int i)"

text \<open>
  \<open>s.substring(a, b)\<close>: both indices are clamped to \<open>0 .. s.length\<close> and swapped when
  \<open>a > b\<close>.
\<close>

definition substring :: "string \<Rightarrow> int \<Rightarrow> int \<Rightarrow> string" where
  "substring s a b =
     (let n = int (length s);
          a' = max 0 (min a n);
          b' = max 0 (min b n);
          lo = min a' b';
          hi = max a' b'
      in take (nat (hi - lo)) (drop (nat lo) s))"

text \<open>
  \<open>xs.slice(a, b)\<close> on arrays and strings: a negative index counts from the end, and both
  are clamped. \<open>xs.slice(a)\<close> runs to the end.
\<close>

definition slice :: "'a list \<Rightarrow> int \<Rightarrow> int \<Rightarrow> 'a list" where
  "slice xs a b =
     (let n = int (length xs);
          k = (if a < 0 then max (n + a) 0 else min a n);
          f = (if b < 0 then max (n + b) 0 else min b n)
      in take (nat (f - k)) (drop (nat k) xs))"

definition sliceFrom :: "'a list \<Rightarrow> int \<Rightarrow> 'a list" where
  "sliceFrom xs a = slice xs a (int (length xs))"

text \<open>\<open>xs[i]\<close>: \<open>undefined\<close> out of range.\<close>

definition at :: "'a list \<Rightarrow> nat \<Rightarrow> 'a option" where
  "at xs i = (if i < length xs then Some (xs ! i) else None)"

text \<open>\<open>xs.filter(Boolean)\<close> on an array of objects and \<open>undefined\<close>: objects are truthy.\<close>

definition filterBoolean :: "'a option list \<Rightarrow> 'a list" where
  "filterBoolean xs = List.map_filter (\<lambda>x. x) xs"

fun join :: "string \<Rightarrow> string list \<Rightarrow> string" where
  "join sep [] = []"
| "join sep [x] = x"
| "join sep (x # y # ys) = x @ sep @ join sep (y # ys)"

text \<open>\<open>s.trim()\<close>, with the white space of the code units below 256.\<close>

definition isSpace :: "char \<Rightarrow> bool" where
  "isSpace c = ((of_char c :: nat) \<in> {0x09, 0x0A, 0x0B, 0x0C, 0x0D, 0x20, 0xA0})"

definition trim :: "string \<Rightarrow> string" where
  "trim s = rev (dropWhile isSpace (rev (dropWhile isSpace s)))"

text \<open>\<open>s.replace(/^["']|["']$/g, '')\<close>: one quote off the start, one off the end.\<close>

definition isQuote :: "char \<Rightarrow> bool" where
  "isQuote c = (c = CHR 0x22 \<or> c = CHR 0x27)"

definition stripQuotes :: "string \<Rightarrow> string" where
  "stripQuotes s =
     (let s1 = (case s of [] \<Rightarrow> [] | c # cs \<Rightarrow> if isQuote c then cs else s)
      in if s1 \<noteq> [] \<and> isQuote (last s1) then butlast s1 else s1)"

section \<open>Data model (types.ts)\<close>

text \<open>
  \<open>TermCategory\<close> is a string enum; a category that arrives from the extractor is an
  unchecked string cast to it, so the field is a string. Field names are the source's,
  except where two interfaces share one: \<open>Term.id\<close> is \<open>tid\<close>, \<open>Chapter.id\<close> is \<open>cid\<close>,
  \<open>Chapter.novelId\<close> is \<open>c_novelId\<close>, \<open>Chapter.order\<close> is \<open>ord\<close>, and the fields of a
  \<open>Partial<Term>\<close> are \<open>p_original\<close> and \<open>p_category\<close>.
\<close>

definition PERSON :: string where "PERSON = ''Person''"
definition LOCATION :: string where "LOCATION = ''Location''"
definition SKILL :: string where "SKILL = ''Martial Art/Skill''"
definition ITEM :: string where "ITEM = ''Item''"
definition ORGANIZATION :: string where "ORGANIZATION = ''Organization''"
definition OTHER :: string where "OTHER = ''Other''"

record Term =
  tid :: "nat option"
  novelId :: nat
  original :: string
  translation :: string
  category :: string
  isLocked :: bool

text \<open>
  \<open>Partial<Term>\<close> as the extractor returns it: its response schema has the two fields
  \<open>original\<close> and \<open>category\<close>, each possibly missing.
\<close>

record PartialTerm =
  p_original :: "string option"
  p_category :: "string option"

text \<open>
  A chapter row read from the table carries its primary key. \<open>lastTranslated\<close> is a
  \<open>Date\<close>, kept as a time stamp.
\<close>

record Chapter =
  cid :: nat
  c_novelId :: nat
  title :: string
  ord :: nat
  content :: string
  translatedContent :: "string option"
  lastTranslated :: "nat option"

section \<open>The environment: runtime, external service, store failures, user signals\<close>

text \<open>
  What the pipeline takes from outside is a field of the environment, and every theorem
  below holds for every environment.
  \<^item> \<open>toLowerCase\<close>: \<open>String.prototype.toLowerCase\<close> of the JavaScript runtime, with
    the full case mapping it implements. Nothing is assumed about it.
  \<^item> \<open>aiGenerateContent k prompt\<close>: the \<open>k\<close>-th request of an operation to
    \<open>ai.models.generateContent\<close>; it rejects, or resolves with a response whose \<open>text\<close>
    may be \<open>undefined\<close>.
  \<^item> \<open>JSON_parse\<close>: \<open>JSON.parse\<close> of the extractor's response, which throws on
    malformed text.
  \<^item> \<open>glossaryAddResolves k\<close>, \<open>chaptersUpdateResolves k\<close>: whether the \<open>k\<close>-th write to
    the table resolves. Reads of the tables are taken to resolve.
  \<^item> \<open>newDate k\<close>: \<open>new Date()\<close> at the \<open>k\<close>-th item.
  \<^item> \<open>stopSignalCurrent t\<close>, \<open>bulkPausedRefCurrent t\<close>: the values of
    \<open>stopSignal.current\<close> and \<open>bulkPausedRef.current\<close> at the \<open>t\<close>-th instant at which the
    batch loop reads them. The user's Pause and Stop buttons set them between instants.
\<close>

record Env =
  toLowerCase :: "string \<Rightarrow> string"
  aiGenerateContent :: "nat \<Rightarrow> string \<Rightarrow> string option outcome"
  JSON_parse :: "string \<Rightarrow> PartialTerm list outcome"
  glossaryAddResolves :: "nat \<Rightarrow> bool"
  chaptersUpdateResolves :: "nat \<Rightarrow> bool"
  newDate :: "nat \<Rightarrow> nat"
  stopSignalCurrent :: "nat \<Rightarrow> bool"
  bulkPausedRefCurrent :: "nat \<Rightarrow> bool"

section \<open>geminiService: the three requests\<close>

definition extractPrompt :: "string \<Rightarrow> string" where
  "extractPrompt textChunk = join nl
     [ '''',
       ''    Analyze the following webnovel text. '',
       ''    Identify key proper nouns and recurring terminology that require consistent translation.'',
       ''    Categorize them into: Person, Location, Martial Art/Skill, Item, Organization.'',
       ''    '',
       ''    Return a JSON array where each object has:'',
       ''    - original: the term in source language'',
       ''    - category: one of the requested categories'',
       ''    '',
       ''    Ignore common words. Focus on unique entities.'',
       ''    '',
       ''    Text:'',
       ''    '' @ dq @ slice textChunk 0 30000 @ dq @ '' '',
       ''  '' ]"

text \<open>The \<open>try\<close> block of \<open>extractTermsFromText\<close>, and the function with its \<open>catch\<close>.\<close>

definition extractTermsTry :: "Env \<Rightarrow> nat \<Rightarrow> string \<Rightarrow> PartialTerm list outcome" where
  "extractTermsTry e k textChunk =
     (case aiGenerateContent e k (extractPrompt textChunk) of
        Rejects \<Rightarrow> Rejects
      | Resolves txt \<Rightarrow> JSON_parse e (orElse txt ''[]''))"

definition extractTermsFromText :: "Env \<Rightarrow> nat \<Rightarrow> string \<Rightarrow> PartialTerm list outcome" where
  "extractTermsFromText e k textChunk =
     (case extractTermsTry e k textChunk of
        Rejects \<Rightarrow> Resolves []
      | Resolves result \<Rightarrow> Resolves result)"

definition termPrompt :: "string \<Rightarrow> string \<Rightarrow> string" where
  "termPrompt t contextSnippet = join nl
     [ '''',
       ''    Find the established or most accurate Arabic translation/transliteration for the webnovel term: ''
         @ dq @ t @ dq @ ''.'',
       ''    Context of usage: '' @ dq @ contextSnippet @ dq @ ''.'',
       ''    '',
       ''    If it is a famous anime/novel term (e.g., from Naruto, One Piece, Wuxia novels), find the community accepted Arabic term.'',
       ''    If it is a generic name, transliterate it accurately to Arabic phonetics.'',
       ''    '',
       ''    Return ONLY the Arabic translation string. Nothing else.'',
       ''  '' ]"

definition findArabicTranslationTry :: "Env \<Rightarrow> nat \<Rightarrow> string \<Rightarrow> string \<Rightarrow> string outcome" where
  "findArabicTranslationTry e k t contextSnippet =
     (case aiGenerateContent e k (termPrompt t contextSnippet) of
        Rejects \<Rightarrow> Rejects
      | Resolves txt \<Rightarrow> Resolves (stripQuotes (orElse (map_option trim txt) '''')))"

definition findArabicTranslationForTerm :: "Env \<Rightarrow> nat \<Rightarrow> string \<Rightarrow> string \<Rightarrow> string outcome" where
  "findArabicTranslationForTerm e k t contextSnippet =
     (case findArabicTranslationTry e k t contextSnippet of
        Rejects \<Rightarrow> Resolves t
      | Resolves cleanText \<Rightarrow> Resolves cleanText)"

definition glossaryString :: "Term list \<Rightarrow> string" where
  "glossaryString glossary = join nl (map (\<lambda>g. original g @ '' -> '' @ translation g) glossary)"

definition translatePrompt :: "string \<Rightarrow> Term list \<Rightarrow> string" where
  "translatePrompt chapterContent glossary = join nl
     [ '''',
       ''    Translate the following webnovel chapter to Arabic.'',
       ''    '',
       ''    CRITICAL RULES:'',
       ''    1. You MUST strictly adhere to the provided Glossary. If a term appears in the text, use the exact Arabic translation provided below.'',
       ''    2. Maintain the tone and flow of a webnovel (engaging, dramatic where necessary).'',
       ''    3. Output ONLY the translated Arabic text.'',
       ''    '',
       ''    GLOSSARY (Strict adherence required):'',
       ''    '' @ glossaryString glossary,
       ''    '',
       ''    CHAPTER CONTENT:'',
       ''    '' @ chapterContent,
       ''  '' ]"

definition translationFailed :: string where
  "translationFailed = ''Translation failed.''"

definition errorGenerating :: string where
  "errorGenerating = ''Error generating translation. Please check API Key or quota.''"

definition translateChapterTry :: "Env \<Rightarrow> nat \<Rightarrow> string \<Rightarrow> Term list \<Rightarrow> string outcome" where
  "translateChapterTry e k chapterContent glossary =
     (case aiGenerateContent e k (translatePrompt chapterContent glossary) of
        Rejects \<Rightarrow> Rejects
      | Resolves txt \<Rightarrow> Resolves (orElse txt translationFailed))"

definition translateChapterWithGlossary :: "Env \<Rightarrow> nat \<Rightarrow> string \<Rightarrow> Term list \<Rightarrow> string outcome" where
  "translateChapterWithGlossary e k chapterContent glossary =
     (case translateChapterTry e k chapterContent glossary of
        Rejects \<Rightarrow> Resolves errorGenerating
      | Resolves r \<Rightarrow> Resolves r)"

section \<open>NovelDashboard: the deep scan\<close>

text \<open>
  The progress labels passed to \<open>setScanProgress\<close>, with the numbers they print:
  \<open>Found n new terms. Translating...\<close> and \<open>Translating terms: k/n\<close>.
\<close>

datatype ScanProgress =
    Initializing
  | Extracting
  | Found nat
  | TranslatingTerms nat nat
  | ScanComplete
  | ScanFailed

text \<open>
  What a scan changes and shows: the glossary table, the progress labels in the order
  they were set, and the \<open>(term, contextSnippet)\<close> pairs handed to
  \<open>findArabicTranslationForTerm\<close>, in call order.
\<close>

record ScanRun =
  glossaryTbl :: "Term list"
  scanProgress :: "ScanProgress list"
  termRequests :: "(string \<times> string) list"

text \<open>\<open>db.glossary.where({ novelId }).toArray()\<close>.\<close>

definition glossaryWhere :: "nat \<Rightarrow> Term list \<Rightarrow> Term list" where
  "glossaryWhere nid tbl = filter (\<lambda>t. novelId t = nid) tbl"

text \<open>
  \<open>db.glossary.add(t)\<close>: the table's key is auto-incremented (\<open>++id\<close>), so the new row
  gets a key above every key in use.
\<close>

definition freshKey :: "Term list \<Rightarrow> nat" where
  "freshKey tbl = Suc (fold max (map (\<lambda>t. case tid t of None \<Rightarrow> 0 | Some k \<Rightarrow> k) tbl) 0)"

definition glossaryAdd :: "Term \<Rightarrow> Term list \<Rightarrow> Term list" where
  "glossaryAdd t tbl = tbl @ [t\<lparr>tid := Some (freshKey tbl)\<rparr>]"

text \<open>
  The sample: \<open>[...chapters.slice(0, 3), chapters[Math.floor(chapters.length / 2)],
  ...chapters.slice(-3)].filter(Boolean)\<close>.
\<close>

definition sampleChapters :: "Chapter list \<Rightarrow> Chapter list" where
  "sampleChapters chapters =
     filterBoolean
       (map Some (slice chapters 0 3)
        @ [at chapters (length chapters div 2)]
        @ map Some (sliceFrom chapters (- 3)))"

definition combinedText :: "Chapter list \<Rightarrow> string" where
  "combinedText chapters = join (nl @ nl) (map content (sampleChapters chapters))"

text \<open>
  Term resolution: \<open>existingOriginals\<close> is the set of lower-cased originals of the
  glossary, and \<open>uniqueNewTerms\<close> the candidates that pass
  \<open>t.original && !existingOriginals.has(t.original.toLowerCase())\<close>.
\<close>

definition existingOriginals :: "Env \<Rightarrow> Term list \<Rightarrow> string set" where
  "existingOriginals e existingTerms =
     set (map (\<lambda>t. toLowerCase e (original t)) existingTerms)"

definition uniqueNewTerms :: "Env \<Rightarrow> PartialTerm list \<Rightarrow> Term list \<Rightarrow> PartialTerm list" where
  "uniqueNewTerms e rawTerms existingTerms =
     filter
       (\<lambda>t. case p_original t of
               None \<Rightarrow> False
             | Some s \<Rightarrow> s \<noteq> [] \<and> toLowerCase e s \<notin> existingOriginals e existingTerms)
       rawTerms"

text \<open>
  The context snippet of a term:
  \<open>combinedText.substring(combinedText.indexOf(o), combinedText.indexOf(o) + 100)\<close>.
\<close>

definition contextSnippet :: "string \<Rightarrow> string \<Rightarrow> string" where
  "contextSnippet txt orig = substring txt (indexOf txt orig) (indexOf txt orig + 100)"

text \<open>
  A loop inside a \<open>try\<close> either runs to its end or is left by a throw; the state reached
  is kept in both cases (nothing is rolled back).
\<close>

datatype 's completion = Normal 's | Abrupt 's

text \<open>
  The loop \<open>for (const term of uniqueNewTerms)\<close>. \<open>completed\<close> counts the terms
  inserted so far; the extraction was request 0 of the scan, so the term after
  \<open>completed\<close> insertions goes out as request \<open>completed + 1\<close>.
\<close>

fun translateTerms ::
  "Env \<Rightarrow> nat \<Rightarrow> string \<Rightarrow> nat \<Rightarrow> PartialTerm list \<Rightarrow> nat \<Rightarrow> ScanRun \<Rightarrow> ScanRun completion"
where
  "translateTerms e nid txt n [] completed s = Normal s"
| "translateTerms e nid txt n (t # ts) completed s =
     (case p_original t of
        None \<Rightarrow> translateTerms e nid txt n ts completed s
      | Some orig \<Rightarrow>
          if orig = [] then translateTerms e nid txt n ts completed s
          else
            let snippet = contextSnippet txt orig;
                s1 = s\<lparr>termRequests := termRequests s @ [(orig, snippet)]\<rparr>
            in (case findArabicTranslationForTerm e (Suc completed) orig snippet of
                  Rejects \<Rightarrow> Abrupt s1
                | Resolves tr \<Rightarrow>
                    if \<not> glossaryAddResolves e completed then Abrupt s1
                    else
                      translateTerms e nid txt n ts (Suc completed)
                        (s1\<lparr>glossaryTbl :=
                              glossaryAdd
                                \<lparr>tid = None, novelId = nid, original = orig, translation = tr,
                                 category = orElse (p_category t) OTHER, isLocked = False\<rparr>
                                (glossaryTbl s1),
                            scanProgress :=
                              scanProgress s1 @ [TranslatingTerms (Suc completed) n]\<rparr>)))"

definition setScanProgress :: "ScanProgress \<Rightarrow> ScanRun \<Rightarrow> ScanRun" where
  "setScanProgress p s = s\<lparr>scanProgress := scanProgress s @ [p]\<rparr>"

text \<open>
  \<open>runDeepScan\<close>, given the \<open>chapters\<close> of the live query (\<open>undefined\<close> while it loads).
\<close>

definition runDeepScan :: "Env \<Rightarrow> nat \<Rightarrow> Chapter list option \<Rightarrow> ScanRun \<Rightarrow> ScanRun" where
  "runDeepScan e nid chapters s =
     (case chapters of
        None \<Rightarrow> s
      | Some chs \<Rightarrow>
          if chs = [] then s
          else
            let s1 = setScanProgress Extracting (setScanProgress Initializing s)
            in (case extractTermsFromText e 0 (combinedText chs) of
                  Rejects \<Rightarrow> setScanProgress ScanFailed s1
                | Resolves rawTerms \<Rightarrow>
                    let existingTerms = glossaryWhere nid (glossaryTbl s1);
                        new = uniqueNewTerms e rawTerms existingTerms;
                        s2 = setScanProgress (Found (length new)) s1
                    in (case translateTerms e nid (combinedText chs) (length new) new 0 s2 of
                          Abrupt s3 \<Rightarrow> setScanProgress ScanFailed s3
                        | Normal s3 \<Rightarrow> setScanProgress ScanComplete s3)))"

section \<open>NovelDashboard: the bulk translation queue\<close>

text \<open>
  The per-item \<open>catch\<close> logs the chapter title and the exception it caught; the exception
  comes from one of the two awaits of the \<open>try\<close> block.
\<close>

datatype failure = TranslatorRejected | UpdateRejected

text \<open>
  What a batch run changes and shows: the chapters table, the values passed to
  \<open>setBulkProgress\<close> (current, total, chapter name), the \<open>console.error\<close> entries, the
  alerts and the \<open>isBulkTranslating\<close> flag.
\<close>

record BulkRun =
  chaptersTbl :: "Chapter list"
  bulkProgress :: "(nat \<times> nat \<times> string) list"
  consoleErrors :: "(string \<times> failure) list"
  alerts :: "string list"
  isBulkTranslating :: bool

text \<open>\<open>db.chapters.where({ novelId }).sortBy('order')\<close>, the live query behind \<open>chapters\<close>.\<close>

definition liveChapters :: "nat \<Rightarrow> Chapter list \<Rightarrow> Chapter list" where
  "liveChapters nid tbl = sort_key ord (filter (\<lambda>c. c_novelId c = nid) tbl)"

text \<open>\<open>db.chapters.get(key)\<close>.\<close>

definition chaptersGet :: "nat \<Rightarrow> Chapter list \<Rightarrow> Chapter option" where
  "chaptersGet key tbl = find (\<lambda>c. cid c = key) tbl"

text \<open>
  \<open>db.chapters.update(key, { translatedContent: result, lastTranslated: date })\<close>: the
  row with that key gets the two fields; no row, no change.
\<close>

definition chaptersUpdate :: "nat \<Rightarrow> string \<Rightarrow> nat \<Rightarrow> Chapter list \<Rightarrow> Chapter list" where
  "chaptersUpdate key result date tbl =
     map (\<lambda>c. if cid c = key
               then c\<lparr>translatedContent := Some result, lastTranslated := Some date\<rparr>
               else c) tbl"

text \<open>
  The pause loop \<open>while (stopSignal.current === false && bulkPausedRef.current) await
  sleep(500)\<close>, started at instant \<open>t\<close>: it returns the instant at which it is left, and
  never returns when the run stays paused and is not stopped.
\<close>

partial_function (option) pauseWait :: "Env \<Rightarrow> nat \<Rightarrow> nat option" where
  "pauseWait e t =
     (if stopSignalCurrent e t = False \<and> bulkPausedRefCurrent e t
      then pauseWait e (Suc t)
      else Some t)"

declare pauseWait.simps [code]

text \<open>
  The loop \<open>for (let i = 0; i < untranslated.length; i++)\<close> over the rest of the queue,
  entered at index \<open>i\<close> and instant \<open>t\<close>; \<open>n\<close> is \<open>untranslated.length\<close>. Item \<open>i\<close> sends
  request \<open>i\<close> and makes write \<open>i\<close>. The translation, the write and the cool-down take the
  run to the next instant.
\<close>

fun bulkLoop ::
  "Env \<Rightarrow> Term list \<Rightarrow> nat \<Rightarrow> Chapter list \<Rightarrow> nat \<Rightarrow> nat \<Rightarrow> BulkRun \<Rightarrow> BulkRun option"
where
  "bulkLoop e glossary n [] i t s = Some s"
| "bulkLoop e glossary n (chapter # rest) i t s =
     (if stopSignalCurrent e t then Some s
      else
        (case pauseWait e t of
           None \<Rightarrow> None
         | Some t' \<Rightarrow>
             let s1 = s\<lparr>bulkProgress := bulkProgress s @ [(i + 1, n, title chapter)]\<rparr>
             in (case translateChapterWithGlossary e i (content chapter) glossary of
                   Rejects \<Rightarrow>
                     bulkLoop e glossary n rest (Suc i) (Suc t')
                       (s1\<lparr>consoleErrors :=
                             consoleErrors s1 @ [(title chapter, TranslatorRejected)]\<rparr>)
                 | Resolves result \<Rightarrow>
                     if chaptersUpdateResolves e i
                     then
                       bulkLoop e glossary n rest (Suc i) (Suc t')
                         (s1\<lparr>chaptersTbl :=
                               chaptersUpdate (cid chapter) result (newDate e i) (chaptersTbl s1)\<rparr>)
                     else
                       bulkLoop e glossary n rest (Suc i) (Suc t')
                         (s1\<lparr>consoleErrors :=
                               consoleErrors s1 @ [(title chapter, UpdateRejected)]\<rparr>))))"

definition untranslated :: "Chapter list \<Rightarrow> Chapter list" where
  "untranslated chapters = filter (\<lambda>c. \<not> truthy (translatedContent c)) chapters"

text \<open>
  \<open>startBulkTranslation\<close>, given the \<open>chapters\<close> of the live query and the glossary table.
  The result is \<open>None\<close> when the run never returns.
\<close>

definition startBulkTranslation ::
  "Env \<Rightarrow> nat \<Rightarrow> Chapter list option \<Rightarrow> Term list \<Rightarrow> BulkRun \<Rightarrow> BulkRun option"
where
  "startBulkTranslation e nid chapters glossaryTable s =
     (case chapters of
        None \<Rightarrow> Some s
      | Some chs \<Rightarrow>
          if untranslated chs = []
          then Some (s\<lparr>alerts := alerts s @ [''All chapters are already translated!'']\<rparr>)
          else
            let s1 = s\<lparr>isBulkTranslating := True,
                       bulkProgress := bulkProgress s @ [(0, length (untranslated chs), [])]\<rparr>;
                glossary = glossaryWhere nid glossaryTable
            in (case bulkLoop e glossary (length (untranslated chs)) (untranslated chs) 0 0 s1 of
                  None \<Rightarrow> None
                | Some s2 \<Rightarrow>
                    Some (s2\<lparr>isBulkTranslating := False,
                             alerts := alerts s2 @ [''Bulk translation process finished.'']\<rparr>)))"

section \<open>Concrete inputs\<close>

definition zhangSan :: PartialTerm where
  "zhangSan = \<lparr>p_original = Some ''Zhang San'', p_category = Some ''Person''\<rparr>"

definition blankTerm :: PartialTerm where
  "blankTerm = \<lparr>p_original = Some [], p_category = Some ''Item''\<rparr>"

definition liSiUpper :: PartialTerm where
  "liSiUpper = \<lparr>p_original = Some ''LI SI'', p_category = None\<rparr>"

definition wangWu :: PartialTerm where
  "wangWu = \<lparr>p_original = Some ''Wang Wu'', p_category = None\<rparr>"

definition liSi :: PartialTerm where
  "liSi = \<lparr>p_original = Some ''Li Si'', p_category = Some ''Person''\<rparr>"

text \<open>
  A candidate \<open>ECOLE\<close> and an existing term \<open>ecole\<close>, both with an acute accent on the
  first letter (code units 201 and 233).
\<close>

definition ecoleUpper :: PartialTerm where
  "ecoleUpper = \<lparr>p_original = Some (CHR 0xC9 # ''COLE''), p_category = None\<rparr>"

definition ecoleTerm :: Term where
  "ecoleTerm =
     \<lparr>tid = Some 2, novelId = 1, original = CHR 0xE9 # ''cole'', translation = ''EC'',
      category = ''Other'', isLocked = False\<rparr>"

definition liSiTerm :: Term where
  "liSiTerm =
     \<lparr>tid = Some 1, novelId = 1, original = ''Li Si'', translation = ''LS'',
      category = ''Person'', isLocked = True\<rparr>"

definition emptyScan :: ScanRun where
  "emptyScan = \<lparr>glossaryTbl = [], scanProgress = [], termRequests = []\<rparr>"

text \<open>An untranslated chapter of novel 1 with key and order \<open>k\<close>.\<close>

definition mkChapter :: "nat \<Rightarrow> string \<Rightarrow> Chapter" where
  "mkChapter k body =
     \<lparr>cid = k, c_novelId = 1, title = ''Chapter'', ord = k, content = body,
      translatedContent = None, lastTranslated = None\<rparr>"

text \<open>
  The lower-casing of the concrete environments. A code unit below 256 is an upper-case
  letter exactly when it is one of \<open>A\<close> to \<open>Z\<close> (65 to 90) or of the Latin-1 capitals 192 to
  222 other than the multiplication sign 215; its lower-case form is 32 above it, which
  sets the bit of weight 32.
\<close>

definition lowerUnit :: "char \<Rightarrow> char" where
  "lowerUnit c =
     (if (65 \<le> (of_char c :: nat) \<and> (of_char c :: nat) \<le> 90)
         \<or> (192 \<le> (of_char c :: nat) \<and> (of_char c :: nat) \<le> 222 \<and> (of_char c :: nat) \<noteq> 215)
      then (case c of Char b0 b1 b2 b3 b4 b5 b6 b7 \<Rightarrow> Char b0 b1 b2 b3 b4 True b6 b7)
      else c)"

text \<open>
  An environment that lower-cases code unit by code unit, whose extractor returns \<open>raw\<close>,
  whose service answers request \<open>k\<close> with \<open>answer k\<close>, whose writes succeed and whose user
  neither pauses nor stops.
\<close>

definition quietEnv :: "PartialTerm list \<Rightarrow> (nat \<Rightarrow> string option outcome) \<Rightarrow> Env" where
  "quietEnv raw answer =
     \<lparr>toLowerCase = map lowerUnit,
      aiGenerateContent = (\<lambda>k p. answer k),
      JSON_parse = (\<lambda>s. Resolves raw),
      glossaryAddResolves = (\<lambda>k. True),
      chaptersUpdateResolves = (\<lambda>k. True),
      newDate = (\<lambda>k. 1000 + k),
      stopSignalCurrent = (\<lambda>t. False),
      bulkPausedRefCurrent = (\<lambda>t. False)\<rparr>"

definition emptyBulk :: "Chapter list \<Rightarrow> BulkRun" where
  "emptyBulk tbl =
     \<lparr>chaptersTbl = tbl, bulkProgress = [], consoleErrors = [], alerts = [],
      isBulkTranslating = False\<rparr>"

text \<open>
  The user pauses while the first chapter is being translated and presses Stop during
  the pause: the pause flag is set from instant 1 on, the stop flag from instant 2 on.
\<close>

definition stopDuringPauseEnv :: Env where
  "stopDuringPauseEnv =
     (quietEnv [] (\<lambda>k. Resolves (Some ''translated'')))
       \<lparr>bulkPausedRefCurrent := (\<lambda>t. 1 \<le> t), stopSignalCurrent := (\<lambda>t. 2 \<le> t)\<rparr>"

text \<open>
  The service fails on the first chapter and the table rejects the write of the second.
\<close>

definition flakyStoreEnv :: Env where
  "flakyStoreEnv =
     (quietEnv [] (\<lambda>k. if k = 0 then Rejects else Resolves (Some ''translated'')))
       \<lparr>chaptersUpdateResolves := (\<lambda>k. k \<noteq> 1)\<rparr>"

text \<open>A chapter with a stored translation.\<close>

definition translatedChapter :: "nat \<Rightarrow> string \<Rightarrow> string \<Rightarrow> nat \<Rightarrow> Chapter" where
  "translatedChapter k body tr d =
     (mkChapter k body)\<lparr>translatedContent := Some tr, lastTranslated := Some d\<rparr>"

definition threeChapters :: "Chapter list" where
  "threeChapters = [mkChapter 1 ''a'', mkChapter 2 ''b'', mkChapter 3 ''c'']"

definition afterFlakyRun :: BulkRun where
  "afterFlakyRun =
     \<lparr>chaptersTbl =
        [translatedChapter 1 ''a'' errorGenerating 1000,
         mkChapter 2 ''b'',
         translatedChapter 3 ''c'' ''translated'' 1002],
      bulkProgress = [(0, 3, []), (1, 3, ''Chapter''), (2, 3, ''Chapter''), (3, 3, ''Chapter'')],
      consoleErrors = [(''Chapter'', UpdateRejected)],
      alerts = [''Bulk translation process finished.''],
      isBulkTranslating = False\<rparr>"

definition halfTranslated :: "Chapter list" where
  "halfTranslated = [translatedChapter 1 ''a'' ''old'' 5, mkChapter 2 ''b'']"

definition afterFirstRun :: BulkRun where
  "afterFirstRun =
     \<lparr>chaptersTbl =
        [translatedChapter 1 ''a'' ''old'' 5, translatedChapter 2 ''b'' ''translated'' 1000],
      bulkProgress = [(0, 1, []), (1, 1, ''Chapter'')],
      consoleErrors = [],
      alerts = [''Bulk translation process finished.''],
      isBulkTranslating = False\<rparr>"

definition afterSecondRun :: BulkRun where
  "afterSecondRun =
     afterFirstRun\<lparr>alerts := alerts afterFirstRun @ [''All chapters are already translated!'']\<rparr>"

section \<open>Facts about the JavaScript operations\<close>

lemma slice_0_3: "slice xs 0 3 = take 3 xs"
  by (simp add: slice_def Let_def min_def)

lemma sliceFrom_m3: "sliceFrom xs (- 3) = drop (length xs - 3) xs"
  by (auto simp add: sliceFrom_def slice_def Let_def max_def nat_diff_distrib)

lemma filterBoolean_Cons: "filterBoolean (Some x # ys) = x # filterBoolean ys"
  by (simp add: filterBoolean_def List.map_filter_simps)

lemma filterBoolean_Some: "filterBoolean (map Some xs @ ys) = xs @ filterBoolean ys"
  by (induction xs) (simp_all add: filterBoolean_Cons)

lemma filterBoolean_Some_end: "filterBoolean (map Some xs) = xs"
  using filterBoolean_Some [of xs "[]"] by (simp add: filterBoolean_def List.map_filter_simps)

lemma firstOccurrence_le: "firstOccurrence sample pat = Some i \<Longrightarrow> i \<le> length sample"
  by (induction sample arbitrary: i) (auto split: if_splits)

lemma contextSnippet_absent:
  "firstOccurrence sample orig = None \<Longrightarrow> contextSnippet sample orig = take 99 sample"
  by (simp add: contextSnippet_def indexOf_def substring_def Let_def min_def max_def)

lemma contextSnippet_present:
  "firstOccurrence sample orig = Some i \<Longrightarrow> contextSnippet sample orig = take 100 (drop i sample)"
  using firstOccurrence_le[of sample orig i]
  by (auto simp add: contextSnippet_def indexOf_def substring_def Let_def min_def max_def)

section \<open>The sample of the deep scan\<close>

lemma sampleChapters_eq:
  "chs \<noteq> [] \<Longrightarrow>
     sampleChapters chs = take 3 chs @ [chs ! (length chs div 2)] @ drop (length chs - 3) chs"
  by (simp add: sampleChapters_def slice_0_3 sliceFrom_m3 filterBoolean_Some at_def
      filterBoolean_Cons filterBoolean_Some_end)

lemma mid_not_in_head:
  assumes "distinct chs" "7 \<le> length chs"
  shows "chs ! (length chs div 2) \<notin> set (take 3 chs)"
proof
  assume "chs ! (length chs div 2) \<in> set (take 3 chs)"
  then obtain i where i: "i < 3" "take 3 chs ! i = chs ! (length chs div 2)"
    using assms by (auto simp: in_set_conv_nth)
  then have "chs ! i = chs ! (length chs div 2)" by simp
  with assms i show False
    by (simp add: nth_eq_iff_index_eq)
qed

lemma mid_not_in_tail:
  assumes "distinct chs" "7 \<le> length chs"
  shows "chs ! (length chs div 2) \<notin> set (drop (length chs - 3) chs)"
proof
  assume "chs ! (length chs div 2) \<in> set (drop (length chs - 3) chs)"
  then obtain i where i: "i < 3" "drop (length chs - 3) chs ! i = chs ! (length chs div 2)"
    using assms by (auto simp: in_set_conv_nth)
  then have "chs ! (length chs - 3 + i) = chs ! (length chs div 2)" using assms by simp
  with assms i have "length chs - 3 + i = length chs div 2"
    by (simp add: nth_eq_iff_index_eq)
  with assms show False by linarith
qed

lemma sample_distinct_large:
  assumes "distinct chs" "7 \<le> length chs"
  shows "distinct (sampleChapters chs)"
proof -
  have ne: "chs \<noteq> []" using assms by auto
  have "set (take 3 chs) \<inter> set (drop (length chs - 3) chs) = {}"
    using assms by (intro set_take_disj_set_drop_if_distinct) auto
  then show ?thesis
    using assms mid_not_in_head[OF assms] mid_not_in_tail[OF assms]
    by (simp add: sampleChapters_eq[OF ne])
qed

lemma sample_repeats_small:
  assumes "chs \<noteq> []" "length chs < 7"
  shows "\<not> distinct (sampleChapters chs)"
proof -
  obtain a r1 where 1: "chs = a # r1" using assms by (cases chs) auto
  show ?thesis
  proof (cases r1)
    case Nil then show ?thesis using 1 by (simp add: sampleChapters_eq)
  next
    case (Cons b r2)
    note 2 = this
    show ?thesis
    proof (cases r2)
      case Nil then show ?thesis using 1 2 by (simp add: sampleChapters_eq)
    next
      case (Cons c r3)
      note 3 = this
      show ?thesis
      proof (cases r3)
        case Nil then show ?thesis using 1 2 3 by (simp add: sampleChapters_eq)
      next
        case (Cons d r4)
        note 4 = this
        show ?thesis
        proof (cases r4)
          case Nil then show ?thesis using 1 2 3 4 by (simp add: sampleChapters_eq)
        next
          case (Cons e r5)
          note 5 = this
          show ?thesis
          proof (cases r5)
            case Nil then show ?thesis using 1 2 3 4 5 by (simp add: sampleChapters_eq)
          next
            case (Cons f r6)
            then have "r6 = []" using assms 1 2 3 4 5 by simp
            then show ?thesis using 1 2 3 4 5 Cons by (simp add: sampleChapters_eq)
          qed
        qed
      qed
    qed
  qed
qed

text \<open>
  C7, as amended. For every non-empty chapter sequence the sample is the first three
  chapters, the chapter at index \<open>length div 2\<close> and the last three chapters, in this
  order and with no duplicate removed, and the sample text is their contents joined by a
  blank line. A sequence of distinct chapters yields a sample without repetition exactly
  when it has seven chapters or more.
\<close>

theorem sample_is_head_middle_tail:
  assumes "chs \<noteq> []"
  shows "sampleChapters chs = take 3 chs @ [chs ! (length chs div 2)] @ drop (length chs - 3) chs
         \<and> combinedText chs = join (nl @ nl) (map content (sampleChapters chs))
         \<and> (distinct chs \<longrightarrow> (distinct (sampleChapters chs) \<longleftrightarrow> 7 \<le> length chs))"
proof (intro conjI impI)
  show "sampleChapters chs = take 3 chs @ [chs ! (length chs div 2)] @ drop (length chs - 3) chs"
    using assms by (rule sampleChapters_eq)
  show "combinedText chs = join (nl @ nl) (map content (sampleChapters chs))"
    by (simp add: combinedText_def)
  assume d: "distinct chs"
  show "distinct (sampleChapters chs) \<longleftrightarrow> 7 \<le> length chs"
  proof
    assume "distinct (sampleChapters chs)"
    then show "7 \<le> length chs"
      using sample_repeats_small[OF assms] by (cases "length chs < 7") auto
  next
    assume "7 \<le> length chs"
    with d show "distinct (sampleChapters chs)" by (rule sample_distinct_large)
  qed
qed

theorem sample_is_head_middle_tail_witness:
  "map (\<lambda>k. mkChapter k ''x'') [1, 2, 3, 4, 5, 6, 7, 8] \<noteq> []
   \<and> map cid (sampleChapters (map (\<lambda>k. mkChapter k ''x'') [1, 2, 3, 4, 5, 6, 7, 8]))
       = [1, 2, 3, 5, 6, 7, 8]
   \<and> distinct (map (\<lambda>k. mkChapter k ''x'') [1, 2, 3, 4, 5, 6, 7, 8])
   \<and> distinct (sampleChapters (map (\<lambda>k. mkChapter k ''x'') [1, 2, 3, 4, 5, 6, 7, 8]))"
  using sample_is_head_middle_tail [of "map (\<lambda>k. mkChapter k ''x'') [1, 2, 3, 4, 5, 6, 7, 8]"]
  by (simp add: mkChapter_def)

text \<open>
  C7 as stated fails: a single chapter is sampled three times, so its text occurs three
  times in the sample.
\<close>

theorem sample_not_deduplicated_counterexample:
  "sampleChapters [mkChapter 1 ''abc''] = [mkChapter 1 ''abc'', mkChapter 1 ''abc'', mkChapter 1 ''abc'']
   \<and> combinedText [mkChapter 1 ''abc''] = ''abc'' @ nl @ nl @ ''abc'' @ nl @ nl @ ''abc''"
  by (simp add: combinedText_def sampleChapters_eq mkChapter_def)

section \<open>Term resolution and the term loop\<close>

text \<open>
  Every resolved candidate has a non-empty original that no existing term matches, and
  the loop over resolved candidates inserts one row for each of them when the inserts
  succeed.
\<close>

lemma uniqueNewTerms_member:
  "r \<in> set (uniqueNewTerms e C E) \<Longrightarrow>
     \<exists>s. p_original r = Some s \<and> s \<noteq> [] \<and>
         (\<forall>x\<in>set E. toLowerCase e s \<noteq> toLowerCase e (original x))"
  by (auto simp: uniqueNewTerms_def existingOriginals_def split: option.splits)

lemma uniqueNewTerms_truthy: "\<forall>t\<in>set (uniqueNewTerms e C E). truthy (p_original t)"
  by (auto simp: uniqueNewTerms_def truthy_def split: option.splits)

lemma uniqueNewTerms_filter:
  "uniqueNewTerms e C E =
     filter (\<lambda>t. \<exists>s. p_original t = Some s \<and> s \<noteq> [] \<and>
                   (\<forall>x\<in>set E. toLowerCase e s \<noteq> toLowerCase e (original x))) C"
  unfolding uniqueNewTerms_def existingOriginals_def
  by (rule filter_cong) (auto split: option.splits)

lemma count_list_filter:
  "count_list (filter P xs) c = (if P c then count_list xs c else 0)"
  by (induction xs) auto

lemma findArabic_resolves: "\<exists>tr. findArabicTranslationForTerm e k t snip = Resolves tr"
  by (simp add: findArabicTranslationForTerm_def split: outcome.splits)

lemma findArabic_fallback:
  "aiGenerateContent e k (termPrompt t snip) = Rejects \<Longrightarrow>
     findArabicTranslationForTerm e k t snip = Resolves t"
  by (simp add: findArabicTranslationForTerm_def findArabicTranslationTry_def)

lemma findArabic_blank:
  "aiGenerateContent e k (termPrompt t snip) = Resolves answer \<Longrightarrow>
   \<not> truthy (map_option trim answer) \<Longrightarrow>
     findArabicTranslationForTerm e k t snip = Resolves []"
  by (auto simp: findArabicTranslationForTerm_def findArabicTranslationTry_def truthy_def
      orElse_def stripQuotes_def split: option.splits)

lemma translateTerms_all:
  assumes "\<forall>t\<in>set ts. truthy (p_original t)" "\<forall>k. glossaryAddResolves e k"
  shows "\<exists>s' rows. translateTerms e nid sample n ts c s = Normal s' \<and>
           glossaryTbl s' = glossaryTbl s @ rows \<and> length rows = length ts \<and>
           (\<forall>j<length ts.
              original (rows ! j) = the (p_original (ts ! j)) \<and>
              findArabicTranslationForTerm e (Suc (c + j)) (the (p_original (ts ! j)))
                (contextSnippet sample (the (p_original (ts ! j)))) = Resolves (translation (rows ! j))) \<and>
           termRequests s' = termRequests s @
             map (\<lambda>t. (the (p_original t), contextSnippet sample (the (p_original t)))) ts"
  using assms(1)
proof (induction ts arbitrary: c s)
  case Nil
  then show ?case by simp
next
  case (Cons t ts)
  from Cons.prems obtain orig where o: "p_original t = Some orig" "orig \<noteq> []"
    by (auto simp: truthy_def split: option.splits)
  obtain tr where tr:
    "findArabicTranslationForTerm e (Suc c) orig (contextSnippet sample orig) = Resolves tr"
    using findArabic_resolves by blast
  define row where
    "row = \<lparr>tid = Some (freshKey (glossaryTbl s)), novelId = nid, original = orig,
            translation = tr, category = orElse (p_category t) OTHER, isLocked = False\<rparr>"
  define s2 where
    "s2 = s\<lparr>termRequests := termRequests s @ [(orig, contextSnippet sample orig)],
            glossaryTbl := glossaryTbl s @ [row],
            scanProgress := scanProgress s @ [TranslatingTerms (Suc c) n]\<rparr>"
  have step: "translateTerms e nid sample n (t # ts) c s = translateTerms e nid sample n ts (Suc c) s2"
    using o tr assms(2) by (simp add: Let_def s2_def row_def glossaryAdd_def)
  from Cons.IH[of "Suc c" s2] Cons.prems obtain s' rows where
    r: "translateTerms e nid sample n ts (Suc c) s2 = Normal s'"
       "glossaryTbl s' = glossaryTbl s2 @ rows" "length rows = length ts"
       "\<forall>j<length ts.
          original (rows ! j) = the (p_original (ts ! j)) \<and>
          findArabicTranslationForTerm e (Suc (Suc c + j)) (the (p_original (ts ! j)))
            (contextSnippet sample (the (p_original (ts ! j)))) = Resolves (translation (rows ! j))"
       "termRequests s' = termRequests s2 @
          map (\<lambda>t. (the (p_original t), contextSnippet sample (the (p_original t)))) ts"
    by auto
  have all: "\<forall>j<length (t # ts).
       original ((row # rows) ! j) = the (p_original ((t # ts) ! j)) \<and>
       findArabicTranslationForTerm e (Suc (c + j)) (the (p_original ((t # ts) ! j)))
         (contextSnippet sample (the (p_original ((t # ts) ! j)))) = Resolves (translation ((row # rows) ! j))"
  proof (intro allI impI)
    fix j assume "j < length (t # ts)"
    then show "original ((row # rows) ! j) = the (p_original ((t # ts) ! j)) \<and>
       findArabicTranslationForTerm e (Suc (c + j)) (the (p_original ((t # ts) ! j)))
         (contextSnippet sample (the (p_original ((t # ts) ! j)))) = Resolves (translation ((row # rows) ! j))"
      using o tr r(4) by (cases j) (auto simp: row_def)
  qed
  show ?case
    apply (rule exI[of _ s'], rule exI[of _ "row # rows"])
    using step r all o by (simp add: s2_def)
qed

lemma runDeepScan_inserts:
  assumes "chs \<noteq> []" "extractTermsFromText e 0 (combinedText chs) = Resolves raw"
    "\<forall>k. glossaryAddResolves e k"
    "new = uniqueNewTerms e raw (glossaryWhere nid (glossaryTbl s))"
  shows "\<exists>rows. glossaryTbl (runDeepScan e nid (Some chs) s) = glossaryTbl s @ rows \<and>
           length rows = length new \<and>
           (\<forall>j<length new.
              original (rows ! j) = the (p_original (new ! j)) \<and>
              findArabicTranslationForTerm e (Suc j) (the (p_original (new ! j)))
                (contextSnippet (combinedText chs) (the (p_original (new ! j))))
                = Resolves (translation (rows ! j))) \<and>
           termRequests (runDeepScan e nid (Some chs) s) = termRequests s @
             map (\<lambda>t. (the (p_original t), contextSnippet (combinedText chs) (the (p_original t)))) new \<and>
           last (scanProgress (runDeepScan e nid (Some chs) s)) = ScanComplete"
proof -
  define s2 where
    "s2 = setScanProgress (Found (length new)) (setScanProgress Extracting (setScanProgress Initializing s))"
  have g2: "glossaryTbl s2 = glossaryTbl s" and t2: "termRequests s2 = termRequests s"
    by (simp_all add: s2_def setScanProgress_def)
  from translateTerms_all[OF _ assms(3), of new nid "combinedText chs" "length new" 0 s2]
    uniqueNewTerms_truthy[of e raw "glossaryWhere nid (glossaryTbl s)"] assms(4)
  obtain s' rows where r:
    "translateTerms e nid (combinedText chs) (length new) new 0 s2 = Normal s'"
    "glossaryTbl s' = glossaryTbl s2 @ rows" "length rows = length new"
    "\<forall>j<length new.
              original (rows ! j) = the (p_original (new ! j)) \<and>
              findArabicTranslationForTerm e (Suc j) (the (p_original (new ! j)))
                (contextSnippet (combinedText chs) (the (p_original (new ! j))))
                = Resolves (translation (rows ! j))"
    "termRequests s' = termRequests s2 @
             map (\<lambda>t. (the (p_original t), contextSnippet (combinedText chs) (the (p_original t)))) new"
    by auto
  have run: "runDeepScan e nid (Some chs) s = setScanProgress ScanComplete s'"
    using assms(1,2,4) r(1)
    by (simp add: runDeepScan_def Let_def s2_def setScanProgress_def)
  show ?thesis
    apply (rule exI[of _ rows])
    using r g2 t2 by (simp add: run setScanProgress_def)
qed

text \<open>Rules that evaluate a scan on the concrete inputs.\<close>

lemmas scan_eval =
  runDeepScan_def quietEnv_def extractTermsFromText_def extractTermsTry_def
  uniqueNewTerms_def existingOriginals_def glossaryWhere_def emptyScan_def
  setScanProgress_def findArabicTranslationForTerm_def findArabicTranslationTry_def
  glossaryAdd_def Let_def zhangSan_def blankTerm_def liSiUpper_def liSi_def wangWu_def
  liSiTerm_def ecoleUpper_def ecoleTerm_def lowerUnit_def truthy_def

text \<open>
  C6. For every runtime lower-casing, all candidates \<open>C\<close> and all existing terms \<open>E\<close>,
  every resolved candidate has a non-empty \<open>original\<close> whose lower-cased form differs
  from the lower-cased \<open>original\<close> of every element of \<open>E\<close>; a candidate whose
  \<open>original\<close> is empty or missing is dropped without an error: the result is the same as
  if it had not been in the batch.
\<close>

theorem resolve_excludes_existing_and_empty:
  "(\<forall>r\<in>set (uniqueNewTerms e C E).
      \<exists>s. p_original r = Some s \<and> s \<noteq> [] \<and>
          (\<forall>x\<in>set E. toLowerCase e s \<noteq> toLowerCase e (original x)))
   \<and> (\<not> truthy (p_original c) \<longrightarrow>
        uniqueNewTerms e (A @ c # B) E = uniqueNewTerms e (A @ B) E)"
proof (intro conjI ballI impI)
  fix r assume "r \<in> set (uniqueNewTerms e C E)"
  then show "\<exists>s. p_original r = Some s \<and> s \<noteq> [] \<and>
          (\<forall>x\<in>set E. toLowerCase e s \<noteq> toLowerCase e (original x))"
    by (rule uniqueNewTerms_member)
next
  assume "\<not> truthy (p_original c)"
  then show "uniqueNewTerms e (A @ c # B) E = uniqueNewTerms e (A @ B) E"
    by (auto simp: uniqueNewTerms_def truthy_def split: option.splits)
qed

theorem resolve_excludes_existing_and_empty_witness:
  "uniqueNewTerms (quietEnv [] (\<lambda>k. Rejects)) [zhangSan, blankTerm, liSiUpper, ecoleUpper]
       [liSiTerm, ecoleTerm] = [zhangSan]
   \<and> toLowerCase (quietEnv [] (\<lambda>k. Rejects)) ''Zhang San''
       \<noteq> toLowerCase (quietEnv [] (\<lambda>k. Rejects)) (original liSiTerm)
   \<and> toLowerCase (quietEnv [] (\<lambda>k. Rejects)) ''Zhang San''
       \<noteq> toLowerCase (quietEnv [] (\<lambda>k. Rejects)) (original ecoleTerm)
   \<and> toLowerCase (quietEnv [] (\<lambda>k. Rejects)) ''LI SI''
       = toLowerCase (quietEnv [] (\<lambda>k. Rejects)) (original liSiTerm)
   \<and> toLowerCase (quietEnv [] (\<lambda>k. Rejects)) (CHR 0xC9 # ''COLE'')
       = toLowerCase (quietEnv [] (\<lambda>k. Rejects)) (original ecoleTerm)
   \<and> \<not> truthy (p_original blankTerm)
   \<and> uniqueNewTerms (quietEnv [] (\<lambda>k. Rejects)) ([zhangSan] @ blankTerm # [liSiUpper]) [liSiTerm]
       = uniqueNewTerms (quietEnv [] (\<lambda>k. Rejects)) ([zhangSan] @ [liSiUpper]) [liSiTerm]"
  using resolve_excludes_existing_and_empty
    [of "quietEnv [] (\<lambda>k. Rejects)" "[zhangSan, blankTerm, liSiUpper, ecoleUpper]"
        "[liSiTerm, ecoleTerm]" blankTerm "[zhangSan]" "[liSiUpper]"]
  by (simp add: scan_eval)

text \<open>
  C1, as amended. For every runtime lower-casing, term resolution is exactly the
  sub-sequence of the candidates whose \<open>original\<close> is non-empty and lower-cases to
  something other than the lower-cased \<open>original\<close> of every existing term: each such
  candidate is kept, in input order, as often as it occurs in the batch, so duplicates
  within a batch are not collapsed. When every insert succeeds the scan adds one Term
  per occurrence of such a candidate, in that order.
\<close>

theorem resolve_keeps_every_occurrence:
  assumes "chs \<noteq> []" and "extractTermsFromText e 0 (combinedText chs) = Resolves raw"
    and "\<forall>k. glossaryAddResolves e k"
  shows "uniqueNewTerms e C E =
           filter (\<lambda>t. \<exists>s. p_original t = Some s \<and> s \<noteq> [] \<and>
                         (\<forall>x\<in>set E. toLowerCase e s \<noteq> toLowerCase e (original x))) C
     \<and> (\<forall>c::PartialTerm. (\<exists>s. p_original c = Some s \<and> s \<noteq> [] \<and>
                  (\<forall>x\<in>set E. toLowerCase e s \<noteq> toLowerCase e (original x)))
             \<longrightarrow> count_list (uniqueNewTerms e C E) c = count_list C c)
     \<and> map original (glossaryTbl (runDeepScan e nid (Some chs) s))
         = map original (glossaryTbl s)
           @ map (\<lambda>t. the (p_original t))
               (filter (\<lambda>t. \<exists>s'. p_original t = Some s' \<and> s' \<noteq> [] \<and>
                             (\<forall>x\<in>set (glossaryWhere nid (glossaryTbl s)).
                                toLowerCase e s' \<noteq> toLowerCase e (original x))) raw)"
proof (intro conjI allI impI)
  show "uniqueNewTerms e C E =
           filter (\<lambda>t. \<exists>s. p_original t = Some s \<and> s \<noteq> [] \<and>
                         (\<forall>x\<in>set E. toLowerCase e s \<noteq> toLowerCase e (original x))) C"
    by (rule uniqueNewTerms_filter)
next
  fix c :: PartialTerm
  assume "\<exists>s. p_original c = Some s \<and> s \<noteq> [] \<and>
                  (\<forall>x\<in>set E. toLowerCase e s \<noteq> toLowerCase e (original x))"
  then show "count_list (uniqueNewTerms e C E) c = count_list C c"
    by (simp add: uniqueNewTerms_filter count_list_filter)
next
  define new where "new = uniqueNewTerms e raw (glossaryWhere nid (glossaryTbl s))"
  from runDeepScan_inserts[OF assms new_def] obtain rows where
    r: "glossaryTbl (runDeepScan e nid (Some chs) s) = glossaryTbl s @ rows"
       "length rows = length new"
       "\<forall>j<length new. original (rows ! j) = the (p_original (new ! j))"
    by blast
  have "map original rows = map (\<lambda>t. the (p_original t)) new"
    using r(2,3) by (intro nth_equalityI) auto
  then show "map original (glossaryTbl (runDeepScan e nid (Some chs) s))
         = map original (glossaryTbl s)
           @ map (\<lambda>t. the (p_original t))
               (filter (\<lambda>t. \<exists>s'. p_original t = Some s' \<and> s' \<noteq> [] \<and>
                             (\<forall>x\<in>set (glossaryWhere nid (glossaryTbl s)).
                                toLowerCase e s' \<noteq> toLowerCase e (original x))) raw)"
    using r(1) by (simp add: new_def uniqueNewTerms_filter)
qed

theorem resolve_keeps_every_occurrence_witness:
  "[mkChapter 1 ''Zhang San and Li Si.''] \<noteq> []
   \<and> extractTermsFromText (quietEnv [zhangSan, liSiUpper, zhangSan] (\<lambda>k. Resolves (Some ''ZS''))) 0
        (combinedText [mkChapter 1 ''Zhang San and Li Si.''])
       = Resolves [zhangSan, liSiUpper, zhangSan]
   \<and> (\<forall>k. glossaryAddResolves (quietEnv [zhangSan, liSiUpper, zhangSan] (\<lambda>k. Resolves (Some ''ZS''))) k)
   \<and> uniqueNewTerms (quietEnv [zhangSan, liSiUpper, zhangSan] (\<lambda>k. Resolves (Some ''ZS'')))
        [zhangSan, liSiUpper, zhangSan] [liSiTerm] = [zhangSan, zhangSan]
   \<and> count_list (uniqueNewTerms (quietEnv [zhangSan, liSiUpper, zhangSan] (\<lambda>k. Resolves (Some ''ZS'')))
        [zhangSan, liSiUpper, zhangSan] [liSiTerm]) zhangSan = 2
   \<and> map original (glossaryTbl (runDeepScan (quietEnv [zhangSan, liSiUpper, zhangSan] (\<lambda>k. Resolves (Some ''ZS''))) 1
        (Some [mkChapter 1 ''Zhang San and Li Si.'']) (emptyScan\<lparr>glossaryTbl := [liSiTerm]\<rparr>)))
       = [''Li Si'', ''Zhang San'', ''Zhang San'']"
proof -
  let ?e = "quietEnv [zhangSan, liSiUpper, zhangSan] (\<lambda>k. Resolves (Some ''ZS''))"
  let ?chs = "[mkChapter 1 ''Zhang San and Li Si.'']"
  have h1: "?chs \<noteq> []" by simp
  have h2: "extractTermsFromText ?e 0 (combinedText ?chs) = Resolves [zhangSan, liSiUpper, zhangSan]"
    by (simp add: extractTermsFromText_def extractTermsTry_def quietEnv_def)
  have h3: "\<forall>k. glossaryAddResolves ?e k" by (simp add: quietEnv_def)
  have u: "uniqueNewTerms ?e [zhangSan, liSiUpper, zhangSan] [liSiTerm] = [zhangSan, zhangSan]"
    by (simp add: scan_eval)
  from resolve_keeps_every_occurrence[OF h1 h2 h3,
      of "[zhangSan, liSiUpper, zhangSan]" "[liSiTerm]" 1 "emptyScan\<lparr>glossaryTbl := [liSiTerm]\<rparr>"]
  show ?thesis using h2 h3 u
    by (simp add: glossaryWhere_def emptyScan_def liSiTerm_def zhangSan_def liSiUpper_def
        quietEnv_def lowerUnit_def)
qed

text \<open>
  C1 as stated fails: three candidates \<open>Zhang San\<close> and no existing terms give three
  resolved candidates and three inserted Terms.
\<close>

theorem batch_duplicates_kept_counterexample:
  "map p_original (uniqueNewTerms (quietEnv [zhangSan, zhangSan, zhangSan] (\<lambda>k. Resolves (Some ''ZS'')))
       [zhangSan, zhangSan, zhangSan] [])
     = [Some ''Zhang San'', Some ''Zhang San'', Some ''Zhang San'']
   \<and> map original (glossaryTbl (runDeepScan (quietEnv [zhangSan, zhangSan, zhangSan] (\<lambda>k. Resolves (Some ''ZS''))) 1
        (Some [mkChapter 1 ''Zhang San met Zhang San and Zhang San.'']) emptyScan))
     = [''Zhang San'', ''Zhang San'', ''Zhang San'']"
  by (simp add: scan_eval)

text \<open>
  C8, as amended. When the inserts succeed, the \<open>j\<close>-th resolved candidate is inserted
  whatever its term-translation request does, and the scan goes on to insert one Term
  per resolved candidate and ends with \<open>Scan Complete\<close>. When the request throws, the
  candidate's \<open>original\<close> is its translation; when the request returns a response whose
  text is undefined, empty or blank, the translation is the empty string.
\<close>

theorem term_failure_outcomes:
  assumes "chs \<noteq> []" and "extractTermsFromText e 0 (combinedText chs) = Resolves raw"
    and "\<forall>k. glossaryAddResolves e k"
    and "new = uniqueNewTerms e raw (glossaryWhere nid (glossaryTbl s))"
    and "j < length new" and "p_original (new ! j) = Some orig"
    and "resp = aiGenerateContent e (Suc j) (termPrompt orig (contextSnippet (combinedText chs) orig))"
  shows "\<exists>rows. glossaryTbl (runDeepScan e nid (Some chs) s) = glossaryTbl s @ rows
         \<and> length rows = length new
         \<and> original (rows ! j) = orig
         \<and> (resp = Rejects \<longrightarrow> translation (rows ! j) = orig)
         \<and> (\<forall>answer. resp = Resolves answer \<longrightarrow> \<not> truthy (map_option trim answer)
                \<longrightarrow> translation (rows ! j) = [])
         \<and> map original rows = map (\<lambda>t. the (p_original t)) new
         \<and> last (scanProgress (runDeepScan e nid (Some chs) s)) = ScanComplete"
proof -
  from runDeepScan_inserts[OF assms(1-4)] obtain rows where
    r: "glossaryTbl (runDeepScan e nid (Some chs) s) = glossaryTbl s @ rows"
       "length rows = length new"
       "\<forall>j<length new.
              original (rows ! j) = the (p_original (new ! j)) \<and>
              findArabicTranslationForTerm e (Suc j) (the (p_original (new ! j)))
                (contextSnippet (combinedText chs) (the (p_original (new ! j))))
                = Resolves (translation (rows ! j))"
       "last (scanProgress (runDeepScan e nid (Some chs) s)) = ScanComplete"
    by blast
  have m: "map original rows = map (\<lambda>t. the (p_original t)) new"
    using r(2,3) by (intro nth_equalityI) auto
  have o: "original (rows ! j) = orig" using r(3) assms(5,6) by simp
  have f: "findArabicTranslationForTerm e (Suc j) orig (contextSnippet (combinedText chs) orig)
          = Resolves (translation (rows ! j))"
    using r(3) assms(5,6) by auto
  have t1: "resp = Rejects \<longrightarrow> translation (rows ! j) = orig"
  proof
    assume "resp = Rejects"
    then have "aiGenerateContent e (Suc j) (termPrompt orig (contextSnippet (combinedText chs) orig)) = Rejects"
      using assms(7) by simp
    from findArabic_fallback[OF this] f show "translation (rows ! j) = orig" by simp
  qed
  have t2: "\<forall>answer. resp = Resolves answer \<longrightarrow> \<not> truthy (map_option trim answer)
                \<longrightarrow> translation (rows ! j) = []"
  proof (intro allI impI)
    fix answer assume "resp = Resolves answer" and b: "\<not> truthy (map_option trim answer)"
    then have "aiGenerateContent e (Suc j) (termPrompt orig (contextSnippet (combinedText chs) orig))
                 = Resolves answer"
      using assms(7) by simp
    from findArabic_blank[OF this b] f show "translation (rows ! j) = []" by simp
  qed
  show ?thesis
    using r(1,2,4) m o t1 t2 by (intro exI[of _ rows]) simp
qed

theorem term_failure_outcomes_witness:
  "aiGenerateContent (quietEnv [zhangSan, liSi, wangWu]
       (\<lambda>k. if k = 2 then Rejects else if k = 3 then Resolves None else Resolves (Some ''tr''))) 2
       (termPrompt ''Li Si'' (contextSnippet (combinedText [mkChapter 1 ''Zhang San, Li Si, Wang Wu.'']) ''Li Si''))
     = Rejects
   \<and> map translation (glossaryTbl (runDeepScan
       (quietEnv [zhangSan, liSi, wangWu]
          (\<lambda>k. if k = 2 then Rejects else if k = 3 then Resolves None else Resolves (Some ''tr''))) 1
       (Some [mkChapter 1 ''Zhang San, Li Si, Wang Wu.'']) emptyScan))
     = [''tr'', ''Li Si'', []]
   \<and> last (scanProgress (runDeepScan
       (quietEnv [zhangSan, liSi, wangWu]
          (\<lambda>k. if k = 2 then Rejects else if k = 3 then Resolves None else Resolves (Some ''tr''))) 1
       (Some [mkChapter 1 ''Zhang San, Li Si, Wang Wu.'']) emptyScan)) = ScanComplete"
proof -
  let ?e = "quietEnv [zhangSan, liSi, wangWu]
              (\<lambda>k. if k = 2 then Rejects else if k = 3 then Resolves None else Resolves (Some ''tr''))"
  let ?chs = "[mkChapter 1 ''Zhang San, Li Si, Wang Wu.'']"
  have h1: "?chs \<noteq> []" by simp
  have h2: "extractTermsFromText ?e 0 (combinedText ?chs) = Resolves [zhangSan, liSi, wangWu]"
    by (simp add: extractTermsFromText_def extractTermsTry_def quietEnv_def)
  have h3: "\<forall>k. glossaryAddResolves ?e k" by (simp add: quietEnv_def)
  have h4: "[zhangSan, liSi, wangWu]
              = uniqueNewTerms ?e [zhangSan, liSi, wangWu] (glossaryWhere 1 (glossaryTbl emptyScan))"
    by (simp add: scan_eval)
  have h5: "1 < length [zhangSan, liSi, wangWu]" by simp
  have h6: "p_original ([zhangSan, liSi, wangWu] ! 1) = Some ''Li Si''" by (simp add: liSi_def)
  have h7: "Rejects = aiGenerateContent ?e (Suc 1)
              (termPrompt ''Li Si'' (contextSnippet (combinedText ?chs) ''Li Si''))"
    by (simp add: quietEnv_def)
  have h8: "2 < length [zhangSan, liSi, wangWu]" by simp
  have h9: "p_original ([zhangSan, liSi, wangWu] ! 2) = Some ''Wang Wu''" by (simp add: wangWu_def)
  have h10: "Resolves None = aiGenerateContent ?e (Suc 2)
              (termPrompt ''Wang Wu'' (contextSnippet (combinedText ?chs) ''Wang Wu''))"
    by (simp add: quietEnv_def)
  from term_failure_outcomes[OF h1 h2 h3 h4 h5 h6 h7]
    term_failure_outcomes[OF h1 h2 h3 h4 h8 h9 h10]
  show ?thesis
    by (simp add: scan_eval stripQuotes_def orElse_def trim_def isSpace_def isQuote_def)
qed

text \<open>
  C8 as stated fails: when the term-translation request returns a response without text,
  the term is inserted with the empty string as its translation, not with its
  \<open>original\<close>.
\<close>

theorem empty_response_gives_empty_translation_counterexample:
  "aiGenerateContent (quietEnv [liSi] (\<lambda>k. Resolves None)) 1
       (termPrompt ''Li Si'' (contextSnippet (combinedText [mkChapter 1 ''Li Si came.'']) ''Li Si''))
     = Resolves None
   \<and> map (\<lambda>t. (original t, translation t))
       (glossaryTbl (runDeepScan (quietEnv [liSi] (\<lambda>k. Resolves None)) 1
          (Some [mkChapter 1 ''Li Si came.'']) emptyScan))
     = [(''Li Si'', [])]"
  by (simp add: scan_eval stripQuotes_def orElse_def trim_def isSpace_def isQuote_def)

text \<open>
  C9 fails on the code. For a term that does not occur in the sample \<open>indexOf\<close> is
  \<open>-1\<close>, so the snippet is \<open>substring(-1, 99)\<close>: the first 99 characters of the sample,
  not the empty string.
\<close>

theorem absent_term_gets_sample_prefix:
  "firstOccurrence (combinedText [mkChapter 1 ''Zhang San walked slowly to the old gate.'']) ''Li Si'' = None
   \<and> termRequests (runDeepScan (quietEnv [liSi] (\<lambda>k. Resolves (Some ''LS''))) 1
        (Some [mkChapter 1 ''Zhang San walked slowly to the old gate.'']) emptyScan)
       = [(''Li Si'', take 99 (combinedText [mkChapter 1 ''Zhang San walked slowly to the old gate.'']))]
   \<and> length (take 99 (combinedText [mkChapter 1 ''Zhang San walked slowly to the old gate.''])) = 99"
  by (simp add: scan_eval combinedText_def sampleChapters_eq mkChapter_def nl_def
      contextSnippet_def indexOf_def substring_def)

section \<open>The document translator and the batch loop\<close>

subsection \<open>The pause loop\<close>

text \<open>
  The loop is left at once when the run is not paused or is stopped, and otherwise polls
  again; it returns as soon as some later instant shows the run resumed or stopped.
\<close>

lemma pauseWait_running: "\<not> bulkPausedRefCurrent e t \<Longrightarrow> pauseWait e t = Some t"
  by (subst pauseWait.simps) simp

lemma pauseWait_stopped: "stopSignalCurrent e t \<Longrightarrow> pauseWait e t = Some t"
  by (subst pauseWait.simps) simp

lemma pauseWait_paused:
  "\<not> stopSignalCurrent e t \<Longrightarrow> bulkPausedRefCurrent e t \<Longrightarrow> pauseWait e t = pauseWait e (Suc t)"
  by (subst pauseWait.simps) simp

lemma pauseWait_returns:
  assumes "t \<le> u" "\<not> bulkPausedRefCurrent e u \<or> stopSignalCurrent e u"
  shows "\<exists>v. pauseWait e t = Some v"
  using assms
proof (induction "u - t" arbitrary: t)
  case 0
  then have "t = u" by simp
  with 0 show ?case using pauseWait_running pauseWait_stopped by blast
next
  case (Suc d)
  show ?case
  proof (cases "\<not> stopSignalCurrent e t \<and> bulkPausedRefCurrent e t")
    case True
    have "\<exists>v. pauseWait e (Suc t) = Some v"
      using Suc by (intro Suc.hyps(1)) auto
    then show ?thesis using True pauseWait_paused by simp
  next
    case False
    then show ?thesis using pauseWait_running pauseWait_stopped by blast
  qed
qed

subsection \<open>The translator\<close>

lemma translate_resolves:
  "\<exists>r. translateChapterWithGlossary e k c g = Resolves r \<and> r \<noteq> []"
  by (auto simp: translateChapterWithGlossary_def translateChapterTry_def orElse_def
      translationFailed_def errorGenerating_def split: outcome.splits option.splits)

lemma translate_value:
  "translateChapterWithGlossary e k c g =
     Resolves (case aiGenerateContent e k (translatePrompt c g) of
                 Rejects \<Rightarrow> errorGenerating
               | Resolves t \<Rightarrow> orElse t translationFailed)"
  by (simp add: translateChapterWithGlossary_def translateChapterTry_def split: outcome.splits)

subsection \<open>One iteration of the queue\<close>

lemma chaptersUpdate_length [simp]: "length (chaptersUpdate key r d tbl) = length tbl"
  by (simp add: chaptersUpdate_def)

lemma chaptersUpdate_cid [simp]: "map cid (chaptersUpdate key r d tbl) = map cid tbl"
  by (simp add: chaptersUpdate_def)

lemma chaptersUpdate_nth:
  "k < length tbl \<Longrightarrow> chaptersUpdate key r d tbl ! k =
     (if cid (tbl ! k) = key
      then (tbl ! k)\<lparr>translatedContent := Some r, lastTranslated := Some d\<rparr>
      else tbl ! k)"
  by (simp add: chaptersUpdate_def)

lemma bulkLoop_Cons:
  assumes "\<not> stopSignalCurrent e t" "pauseWait e t = Some u"
    "translateChapterWithGlossary e i (content c) g = Resolves r"
  shows "bulkLoop e g n (c # rest) i t s =
     bulkLoop e g n rest (Suc i) (Suc u)
       (if chaptersUpdateResolves e i
        then s\<lparr>bulkProgress := bulkProgress s @ [(i + 1, n, title c)],
               chaptersTbl := chaptersUpdate (cid c) r (newDate e i) (chaptersTbl s)\<rparr>
        else s\<lparr>bulkProgress := bulkProgress s @ [(i + 1, n, title c)],
               consoleErrors := consoleErrors s @ [(title c, UpdateRejected)]\<rparr>)"
  using assms by (simp add: Let_def)

lemma bulkLoop_stop: "stopSignalCurrent e t \<Longrightarrow> bulkLoop e g n q i t s = Some s"
  by (cases q) simp_all

lemma bulkLoop_None: "\<not> stopSignalCurrent e t \<Longrightarrow> pauseWait e t = None \<Longrightarrow> bulkLoop e g n (c # rest) i t s = None"
  by simp

subsection \<open>What the loop changes\<close>

text \<open>
  Keys are never changed, and a row whose key is not in the queue stays as it is.
\<close>

lemma bulkLoop_untouched:
  "bulkLoop e g n q i t s = Some s' \<Longrightarrow>
     map cid (chaptersTbl s') = map cid (chaptersTbl s) \<and>
     (\<forall>k<length (chaptersTbl s). cid (chaptersTbl s ! k) \<notin> cid ` set q \<longrightarrow>
        chaptersTbl s' ! k = chaptersTbl s ! k)"
proof (induction q arbitrary: i t s)
  case Nil
  then show ?case by simp
next
  case (Cons c rest)
  show ?case
  proof (cases "stopSignalCurrent e t")
    case True
    with Cons.prems show ?thesis by (simp add: bulkLoop_stop)
  next
    case False
    note ns = this
    show ?thesis
    proof (cases "pauseWait e t")
      case None
      with ns Cons.prems show ?thesis by simp
    next
      case (Some u)
      obtain r where r: "translateChapterWithGlossary e i (content c) g = Resolves r"
        using translate_resolves by blast
      let ?s2 = "(if chaptersUpdateResolves e i
        then s\<lparr>bulkProgress := bulkProgress s @ [(i + 1, n, title c)],
               chaptersTbl := chaptersUpdate (cid c) r (newDate e i) (chaptersTbl s)\<rparr>
        else s\<lparr>bulkProgress := bulkProgress s @ [(i + 1, n, title c)],
               consoleErrors := consoleErrors s @ [(title c, UpdateRejected)]\<rparr>)"
      have "bulkLoop e g n rest (Suc i) (Suc u) ?s2 = Some s'"
        using Cons.prems bulkLoop_Cons[OF ns Some r] by simp
      from Cons.IH[OF this]
      have ih: "map cid (chaptersTbl s') = map cid (chaptersTbl ?s2)"
        "\<forall>k<length (chaptersTbl ?s2). cid (chaptersTbl ?s2 ! k) \<notin> cid ` set rest \<longrightarrow>
            chaptersTbl s' ! k = chaptersTbl ?s2 ! k" by auto
      have c2: "map cid (chaptersTbl ?s2) = map cid (chaptersTbl s)" by simp
      have l2: "length (chaptersTbl ?s2) = length (chaptersTbl s)" by simp
      have n2: "\<And>k. k < length (chaptersTbl s) \<Longrightarrow> cid (chaptersTbl s ! k) \<noteq> cid c \<Longrightarrow>
                 chaptersTbl ?s2 ! k = chaptersTbl s ! k"
        by (simp add: chaptersUpdate_nth)
      show ?thesis
      proof (intro conjI allI impI)
        show "map cid (chaptersTbl s') = map cid (chaptersTbl s)" using ih(1) c2 by simp
      next
        fix k assume k: "k < length (chaptersTbl s)" "cid (chaptersTbl s ! k) \<notin> cid ` set (c # rest)"
        then have a: "chaptersTbl ?s2 ! k = chaptersTbl s ! k" using n2 by auto
        with k ih(2) l2 show "chaptersTbl s' ! k = chaptersTbl s ! k" by auto
      qed
    qed
  qed
qed

text \<open>The loop returns when every pause ends or is cut short by a stop.\<close>

lemma bulkLoop_returns:
  assumes "\<forall>t. \<exists>u\<ge>t. \<not> bulkPausedRefCurrent e u \<or> stopSignalCurrent e u"
  shows "\<exists>s'. bulkLoop e g n q i t s = Some s'"
proof (induction q arbitrary: i t s)
  case Nil
  then show ?case by simp
next
  case (Cons c rest)
  show ?case
  proof (cases "stopSignalCurrent e t")
    case True
    then show ?thesis by (simp add: bulkLoop_stop)
  next
    case False
    obtain u where "pauseWait e t = Some u"
      using assms pauseWait_returns by blast
    moreover obtain r where "translateChapterWithGlossary e i (content c) g = Resolves r"
      using translate_resolves by blast
    ultimately show ?thesis
      using bulkLoop_Cons[OF False] Cons.IH by simp
  qed
qed

text \<open>A row that the loop has changed holds a non-empty translation.\<close>

lemma bulkLoop_written:
  "bulkLoop e g n q i t s = Some s' \<Longrightarrow> k < length (chaptersTbl s) \<Longrightarrow>
     chaptersTbl s' ! k = chaptersTbl s ! k \<or> truthy (translatedContent (chaptersTbl s' ! k))"
proof (induction q arbitrary: i t s)
  case Nil
  then show ?case by simp
next
  case (Cons c rest)
  show ?case
  proof (cases "stopSignalCurrent e t")
    case True
    with Cons.prems show ?thesis by (simp add: bulkLoop_stop)
  next
    case False
    note ns = this
    show ?thesis
    proof (cases "pauseWait e t")
      case None
      with ns Cons.prems show ?thesis by simp
    next
      case (Some u)
      obtain r where r: "translateChapterWithGlossary e i (content c) g = Resolves r" "r \<noteq> []"
        using translate_resolves by blast
      let ?s2 = "(if chaptersUpdateResolves e i
        then s\<lparr>bulkProgress := bulkProgress s @ [(i + 1, n, title c)],
               chaptersTbl := chaptersUpdate (cid c) r (newDate e i) (chaptersTbl s)\<rparr>
        else s\<lparr>bulkProgress := bulkProgress s @ [(i + 1, n, title c)],
               consoleErrors := consoleErrors s @ [(title c, UpdateRejected)]\<rparr>)"
      have run: "bulkLoop e g n rest (Suc i) (Suc u) ?s2 = Some s'"
        using Cons.prems bulkLoop_Cons[OF ns Some r(1)] by simp
      have k2: "k < length (chaptersTbl ?s2)" using Cons.prems by simp
      have head: "chaptersTbl ?s2 ! k = chaptersTbl s ! k \<or> translatedContent (chaptersTbl ?s2 ! k) = Some r"
        using Cons.prems(2) by (simp add: chaptersUpdate_nth)
      from Cons.IH[OF run k2]
      have "chaptersTbl s' ! k = chaptersTbl ?s2 ! k \<or> truthy (translatedContent (chaptersTbl s' ! k))" .
      then show ?thesis
      proof
        assume eq: "chaptersTbl s' ! k = chaptersTbl ?s2 ! k"
        from head show ?thesis
        proof
          assume "chaptersTbl ?s2 ! k = chaptersTbl s ! k"
          with eq show ?thesis by simp
        next
          assume "translatedContent (chaptersTbl ?s2 ! k) = Some r"
          with eq r(2) show ?thesis by (simp add: truthy_def)
        qed
      next
        assume "truthy (translatedContent (chaptersTbl s' ! k))"
        then show ?thesis by simp
      qed
    qed
  qed
qed

text \<open>
  In a run that is not stopped, item \<open>j\<close> of the queue is written with the translator's
  result when its write succeeds, and left alone when its write is rejected.
\<close>

lemma bulkLoop_item:
  assumes nostop: "\<forall>t. \<not> stopSignalCurrent e t"
  shows "bulkLoop e g n q i t s = Some s' \<Longrightarrow> distinct (map cid q) \<Longrightarrow> j < length q \<Longrightarrow>
    translateChapterWithGlossary e (i + j) (content (q ! j)) g = Resolves r \<Longrightarrow>
    k < length (chaptersTbl s) \<Longrightarrow> cid (chaptersTbl s ! k) = cid (q ! j) \<Longrightarrow>
    chaptersTbl s' ! k =
      (if chaptersUpdateResolves e (i + j)
       then (chaptersTbl s ! k)\<lparr>translatedContent := Some r, lastTranslated := Some (newDate e (i + j))\<rparr>
       else chaptersTbl s ! k)"
proof (induction q arbitrary: i t s j)
  case Nil
  then show ?case by simp
next
  case (Cons c rest)
  have ns: "\<not> stopSignalCurrent e t" using nostop by simp
  show ?case
  proof (cases "pauseWait e t")
    case None
    with ns Cons.prems show ?thesis by simp
  next
    case (Some u)
    obtain r0 where r0: "translateChapterWithGlossary e i (content c) g = Resolves r0"
      using translate_resolves by blast
    let ?s2 = "(if chaptersUpdateResolves e i
        then s\<lparr>bulkProgress := bulkProgress s @ [(i + 1, n, title c)],
               chaptersTbl := chaptersUpdate (cid c) r0 (newDate e i) (chaptersTbl s)\<rparr>
        else s\<lparr>bulkProgress := bulkProgress s @ [(i + 1, n, title c)],
               consoleErrors := consoleErrors s @ [(title c, UpdateRejected)]\<rparr>)"
    have run: "bulkLoop e g n rest (Suc i) (Suc u) ?s2 = Some s'"
      using Cons.prems(1) bulkLoop_Cons[OF ns Some r0] by simp
    have l2: "length (chaptersTbl ?s2) = length (chaptersTbl s)" by simp
    have c2: "cid (chaptersTbl ?s2 ! k) = cid (chaptersTbl s ! k)"
      using Cons.prems(5) by (simp add: chaptersUpdate_nth)
    show ?thesis
    proof (cases j)
      case 0
      then have r: "r = r0" using Cons.prems(4) r0 by simp
      have notin: "cid (chaptersTbl ?s2 ! k) \<notin> cid ` set rest"
        using Cons.prems(2,6) 0 c2 by auto
      have "chaptersTbl s' ! k = chaptersTbl ?s2 ! k"
        using bulkLoop_untouched[OF run] notin Cons.prems(5) l2 by auto
      then show ?thesis
        using 0 r Cons.prems(5,6) by (simp add: chaptersUpdate_nth)
    next
      case (Suc j')
      have "rest ! j' \<in> set rest" using Cons.prems(3) Suc by simp
      then have "cid (rest ! j') \<in> cid ` set rest" by (rule imageI)
      then have ne: "cid (chaptersTbl s ! k) \<noteq> cid c"
        using Cons.prems(2,6) Suc by auto
      have same: "chaptersTbl ?s2 ! k = chaptersTbl s ! k"
        using ne Cons.prems(5) by (simp add: chaptersUpdate_nth)
      have "chaptersTbl s' ! k =
        (if chaptersUpdateResolves e (Suc i + j')
         then (chaptersTbl ?s2 ! k)\<lparr>translatedContent := Some r, lastTranslated := Some (newDate e (Suc i + j'))\<rparr>
         else chaptersTbl ?s2 ! k)"
        using Cons.prems Suc l2 same
        by (intro Cons.IH[OF run]) auto
      then show ?thesis using same Suc by simp
    qed
  qed
qed

text \<open>The error log only grows, and only by rejected writes.\<close>

lemma bulkLoop_errors:
  "bulkLoop e g n q i t s = Some s' \<Longrightarrow>
     \<exists>new. consoleErrors s' = consoleErrors s @ new \<and>
       (\<forall>x\<in>set new. \<exists>j<length q. \<not> chaptersUpdateResolves e (i + j) \<and> x = (title (q ! j), UpdateRejected))"
proof (induction q arbitrary: i t s)
  case Nil
  then show ?case by simp
next
  case (Cons c rest)
  show ?case
  proof (cases "stopSignalCurrent e t")
    case True
    with Cons.prems show ?thesis by (simp add: bulkLoop_stop)
  next
    case False
    note ns = this
    show ?thesis
    proof (cases "pauseWait e t")
      case None
      with ns Cons.prems show ?thesis by simp
    next
      case (Some u)
      obtain r where r: "translateChapterWithGlossary e i (content c) g = Resolves r"
        using translate_resolves by blast
      let ?s2 = "(if chaptersUpdateResolves e i
        then s\<lparr>bulkProgress := bulkProgress s @ [(i + 1, n, title c)],
               chaptersTbl := chaptersUpdate (cid c) r (newDate e i) (chaptersTbl s)\<rparr>
        else s\<lparr>bulkProgress := bulkProgress s @ [(i + 1, n, title c)],
               consoleErrors := consoleErrors s @ [(title c, UpdateRejected)]\<rparr>)"
      have run: "bulkLoop e g n rest (Suc i) (Suc u) ?s2 = Some s'"
        using Cons.prems bulkLoop_Cons[OF ns Some r] by simp
      from Cons.IH[OF run] obtain new where new:
        "consoleErrors s' = consoleErrors ?s2 @ new"
        "\<forall>x\<in>set new. \<exists>j<length rest. \<not> chaptersUpdateResolves e (Suc i + j) \<and> x = (title (rest ! j), UpdateRejected)"
        by blast
      have shift: "\<forall>x\<in>set new. \<exists>j<length (c # rest). \<not> chaptersUpdateResolves e (i + j) \<and> x = (title ((c # rest) ! j), UpdateRejected)"
      proof
        fix x assume "x \<in> set new"
        with new(2) obtain j where "j < length rest" "\<not> chaptersUpdateResolves e (Suc i + j)" "x = (title (rest ! j), UpdateRejected)"
          by blast
        then show "\<exists>j<length (c # rest). \<not> chaptersUpdateResolves e (i + j) \<and> x = (title ((c # rest) ! j), UpdateRejected)"
          by (intro exI[of _ "Suc j"]) simp
      qed
      show ?thesis
      proof (cases "chaptersUpdateResolves e i")
        case True
        then show ?thesis using new(1) shift by (intro exI[of _ new]) simp
      next
        case False
        have "\<forall>x\<in>set ((title c, UpdateRejected) # new). \<exists>j<length (c # rest). \<not> chaptersUpdateResolves e (i + j) \<and> x = (title ((c # rest) ! j), UpdateRejected)"
          using shift False by (auto intro: exI[of _ 0])
        then show ?thesis using new(1) False
          by (intro exI[of _ "(title c, UpdateRejected) # new"]) simp
      qed
    qed
  qed
qed

subsection \<open>The queue of a run\<close>

lemma untranslated_subset: "set (untranslated (liveChapters nid tbl)) \<subseteq> set tbl"
  by (auto simp: untranslated_def liveChapters_def)

lemma untranslated_falsy: "c \<in> set (untranslated chs) \<Longrightarrow> \<not> truthy (translatedContent c)"
  by (simp add: untranslated_def)

lemma untranslated_distinct:
  "distinct (map cid tbl) \<Longrightarrow> distinct (map cid (untranslated (liveChapters nid tbl)))"
  by (auto simp: untranslated_def liveChapters_def distinct_map inj_on_def)

lemma chaptersGet_nth:
  assumes "distinct (map cid tbl)" "k < length tbl"
  shows "chaptersGet (cid (tbl ! k)) tbl = Some (tbl ! k)"
proof -
  have "\<forall>j<k. cid (tbl ! j) \<noteq> cid (tbl ! k)"
  proof (intro allI impI)
    fix j assume "j < k"
    then have "map cid tbl ! j \<noteq> map cid tbl ! k"
      using assms by (simp add: nth_eq_iff_index_eq del: nth_map)
    then show "cid (tbl ! j) \<noteq> cid (tbl ! k)" using assms \<open>j < k\<close> by simp
  qed
  then show ?thesis
    using assms(2) by (auto simp: chaptersGet_def find_Some_iff intro!: exI[of _ k])
qed

subsection \<open>startBulkTranslation\<close>

lemma start_cases:
  assumes "startBulkTranslation e nid (Some chs) gt s = Some s'"
  shows "\<exists>s0 s2. chaptersTbl s0 = chaptersTbl s \<and> consoleErrors s0 = consoleErrors s \<and>
           bulkLoop e (glossaryWhere nid gt) (length (untranslated chs)) (untranslated chs) 0 0 s0 = Some s2 \<and>
           chaptersTbl s' = chaptersTbl s2 \<and> consoleErrors s' = consoleErrors s2"
proof (cases "untranslated chs = []")
  case True
  with assms have "chaptersTbl s' = chaptersTbl s" "consoleErrors s' = consoleErrors s"
    by (auto simp: startBulkTranslation_def)
  with True show ?thesis by (intro exI[of _ s]) simp
next
  case False
  let ?s0 = "s\<lparr>isBulkTranslating := True,
                 bulkProgress := bulkProgress s @ [(0, length (untranslated chs), [])]\<rparr>"
  from assms False obtain s2 where
    "bulkLoop e (glossaryWhere nid gt) (length (untranslated chs)) (untranslated chs) 0 0 ?s0 = Some s2"
    "s' = s2\<lparr>isBulkTranslating := False,
              alerts := alerts s2 @ [''Bulk translation process finished.'']\<rparr>"
    by (auto simp: startBulkTranslation_def Let_def split: option.splits)
  then show ?thesis by (intro exI[of _ ?s0] exI[of _ s2]) simp
qed

lemma start_returns:
  assumes "\<forall>t. \<exists>u\<ge>t. \<not> bulkPausedRefCurrent e u \<or> stopSignalCurrent e u"
  shows "\<exists>s'. startBulkTranslation e nid chapters gt s = Some s'"
proof (cases chapters)
  case None
  then show ?thesis by (simp add: startBulkTranslation_def)
next
  case (Some chs)
  obtain s2 where "bulkLoop e (glossaryWhere nid gt) (length (untranslated chs)) (untranslated chs) 0 0
     (s\<lparr>isBulkTranslating := True,
                 bulkProgress := bulkProgress s @ [(0, length (untranslated chs), [])]\<rparr>) = Some s2"
    using bulkLoop_returns[OF assms] by blast
  with Some show ?thesis by (simp add: startBulkTranslation_def Let_def)
qed

lemma start_untouched:
  assumes "startBulkTranslation e nid (Some chs) gt s = Some s'"
  shows "map cid (chaptersTbl s') = map cid (chaptersTbl s) \<and>
     (\<forall>k<length (chaptersTbl s). cid (chaptersTbl s ! k) \<notin> cid ` set (untranslated chs) \<longrightarrow>
        chaptersTbl s' ! k = chaptersTbl s ! k)"
proof -
  from start_cases[OF assms] obtain s0 s2 where
    c: "chaptersTbl s0 = chaptersTbl s"
       "bulkLoop e (glossaryWhere nid gt) (length (untranslated chs)) (untranslated chs) 0 0 s0 = Some s2"
       "chaptersTbl s' = chaptersTbl s2" by blast
  from bulkLoop_untouched[OF c(2)] c(1,3) show ?thesis by simp
qed

lemma start_written:
  assumes "startBulkTranslation e nid (Some chs) gt s = Some s'" "k < length (chaptersTbl s)"
  shows "chaptersTbl s' ! k = chaptersTbl s ! k \<or> truthy (translatedContent (chaptersTbl s' ! k))"
proof -
  from start_cases[OF assms(1)] obtain s0 s2 where
    c: "chaptersTbl s0 = chaptersTbl s"
       "bulkLoop e (glossaryWhere nid gt) (length (untranslated chs)) (untranslated chs) 0 0 s0 = Some s2"
       "chaptersTbl s' = chaptersTbl s2" by blast
  from bulkLoop_written[OF c(2), of k] assms(2) c(1,3) show ?thesis by simp
qed

lemma start_keeps_translated:
  assumes "distinct (map cid (chaptersTbl s))"
    and "startBulkTranslation e nid (Some (liveChapters nid (chaptersTbl s))) gt s = Some s'"
    and "k < length (chaptersTbl s)"
    and "truthy (translatedContent (chaptersTbl s ! k))"
  shows "chaptersTbl s' ! k = chaptersTbl s ! k"
proof -
  let ?q = "untranslated (liveChapters nid (chaptersTbl s))"
  have "cid (chaptersTbl s ! k) \<notin> cid ` set ?q"
  proof
    assume "cid (chaptersTbl s ! k) \<in> cid ` set ?q"
    then obtain c where c: "c \<in> set ?q" "cid c = cid (chaptersTbl s ! k)" by auto
    then have "c \<in> set (chaptersTbl s)" using untranslated_subset by blast
    moreover have "chaptersTbl s ! k \<in> set (chaptersTbl s)" using assms(3) by simp
    moreover have "inj_on cid (set (chaptersTbl s))" using assms(1) by (simp add: distinct_map)
    ultimately have "c = chaptersTbl s ! k" using c(2) by (auto dest: inj_onD)
    with c(1) assms(4) show False using untranslated_falsy by blast
  qed
  with start_untouched[OF assms(2)] assms(3) show ?thesis by simp
qed

text \<open>Rules that evaluate a batch run on the concrete inputs.\<close>

lemmas bulk_eval =
  startBulkTranslation_def untranslated_def liveChapters_def truthy_def glossaryWhere_def
  quietEnv_def emptyBulk_def mkChapter_def translateChapterWithGlossary_def translateChapterTry_def
  chaptersUpdate_def orElse_def Let_def pauseWait_running pauseWait_stopped pauseWait_paused

lemmas bulk_inputs =
  threeChapters_def flakyStoreEnv_def translatedChapter_def afterFlakyRun_def halfTranslated_def
  afterFirstRun_def afterSecondRun_def

lemma flaky_run:
  "startBulkTranslation flakyStoreEnv 1 (Some (liveChapters 1 threeChapters)) [] (emptyBulk threeChapters)
     = Some afterFlakyRun"
  by (simp add: bulk_eval bulk_inputs)

text \<open>
  C5. With unique chapter keys and the queue taken from the live query, a batch run
  leaves every chapter that already has a (non-empty) translation as it was, whatever it
  changed now has a non-empty translation, and a second run started on the result leaves
  every translated chapter unchanged: \<open>translatedContent\<close> and \<open>lastTranslated\<close> stay
  as the first run left them.
\<close>

theorem start_touches_only_untranslated:
  assumes "distinct (map cid (chaptersTbl s))"
    and "startBulkTranslation e nid (Some (liveChapters nid (chaptersTbl s))) gt s = Some s1"
    and "startBulkTranslation e' nid (Some (liveChapters nid (chaptersTbl s1))) gt' s1 = Some s2"
    and "k < length (chaptersTbl s)"
  shows "(truthy (translatedContent (chaptersTbl s ! k)) \<longrightarrow> chaptersTbl s1 ! k = chaptersTbl s ! k)
       \<and> (chaptersTbl s1 ! k \<noteq> chaptersTbl s ! k \<longrightarrow> truthy (translatedContent (chaptersTbl s1 ! k)))
       \<and> (truthy (translatedContent (chaptersTbl s1 ! k)) \<longrightarrow> chaptersTbl s2 ! k = chaptersTbl s1 ! k)"
proof (intro conjI impI)
  assume "truthy (translatedContent (chaptersTbl s ! k))"
  then show "chaptersTbl s1 ! k = chaptersTbl s ! k"
    using start_keeps_translated[OF assms(1,2,4)] by simp
next
  assume "chaptersTbl s1 ! k \<noteq> chaptersTbl s ! k"
  then show "truthy (translatedContent (chaptersTbl s1 ! k))"
    using start_written[OF assms(2,4)] by simp
next
  assume t: "truthy (translatedContent (chaptersTbl s1 ! k))"
  have m: "map cid (chaptersTbl s1) = map cid (chaptersTbl s)"
    using start_untouched[OF assms(2)] by simp
  then have d: "distinct (map cid (chaptersTbl s1))" using assms(1) by simp
  have "length (chaptersTbl s1) = length (chaptersTbl s)"
    using m by (metis length_map)
  then have k: "k < length (chaptersTbl s1)" using assms(4) by simp
  show "chaptersTbl s2 ! k = chaptersTbl s1 ! k"
    using start_keeps_translated[OF d assms(3) k t] .
qed

lemma bulkLoop_logs:
  assumes nostop: "\<forall>t. \<not> stopSignalCurrent e t"
  shows "bulkLoop e g n q i t s = Some s' \<Longrightarrow> j < length q \<Longrightarrow>
    \<not> chaptersUpdateResolves e (i + j) \<Longrightarrow>
    (title (q ! j), UpdateRejected) \<in> set (consoleErrors s')"
proof (induction q arbitrary: i t s j)
  case Nil
  then show ?case by simp
next
  case (Cons c rest)
  have ns: "\<not> stopSignalCurrent e t" using nostop by simp
  show ?case
  proof (cases "pauseWait e t")
    case None
    with ns Cons.prems show ?thesis by simp
  next
    case (Some u)
    obtain r0 where r0: "translateChapterWithGlossary e i (content c) g = Resolves r0"
      using translate_resolves by blast
    let ?s2 = "(if chaptersUpdateResolves e i
        then s\<lparr>bulkProgress := bulkProgress s @ [(i + 1, n, title c)],
               chaptersTbl := chaptersUpdate (cid c) r0 (newDate e i) (chaptersTbl s)\<rparr>
        else s\<lparr>bulkProgress := bulkProgress s @ [(i + 1, n, title c)],
               consoleErrors := consoleErrors s @ [(title c, UpdateRejected)]\<rparr>)"
    have run: "bulkLoop e g n rest (Suc i) (Suc u) ?s2 = Some s'"
      using Cons.prems(1) bulkLoop_Cons[OF ns Some r0] by simp
    show ?thesis
    proof (cases j)
      case 0
      then have "(title c, UpdateRejected) \<in> set (consoleErrors ?s2)"
        using Cons.prems(3) by simp
      moreover obtain new where "consoleErrors s' = consoleErrors ?s2 @ new"
        using bulkLoop_errors[OF run] by blast
      ultimately show ?thesis using 0 by simp
    next
      case (Suc j')
      then show ?thesis
        using Cons.IH[OF run, of j'] Cons.prems(2,3) by simp
    qed
  qed
qed

theorem start_touches_only_untranslated_witness:
  "distinct (map cid (chaptersTbl (emptyBulk halfTranslated)))
   \<and> startBulkTranslation (quietEnv [] (\<lambda>k. Resolves (Some ''translated''))) 1
        (Some (liveChapters 1 (chaptersTbl (emptyBulk halfTranslated)))) [] (emptyBulk halfTranslated)
       = Some afterFirstRun
   \<and> startBulkTranslation (quietEnv [] (\<lambda>k. Resolves (Some ''again''))) 1
        (Some (liveChapters 1 (chaptersTbl afterFirstRun))) [] afterFirstRun
       = Some afterSecondRun
   \<and> chaptersTbl afterFirstRun ! 0 = chaptersTbl (emptyBulk halfTranslated) ! 0
   \<and> chaptersTbl afterSecondRun ! 0 = chaptersTbl afterFirstRun ! 0
   \<and> truthy (translatedContent (chaptersTbl (emptyBulk halfTranslated) ! 0))"
proof -
  have h1: "distinct (map cid (chaptersTbl (emptyBulk halfTranslated)))"
    by (simp add: bulk_eval bulk_inputs)
  have h2: "startBulkTranslation (quietEnv [] (\<lambda>k. Resolves (Some ''translated''))) 1
        (Some (liveChapters 1 (chaptersTbl (emptyBulk halfTranslated)))) [] (emptyBulk halfTranslated)
       = Some afterFirstRun"
    by (simp add: bulk_eval bulk_inputs)
  have h3: "startBulkTranslation (quietEnv [] (\<lambda>k. Resolves (Some ''again''))) 1
        (Some (liveChapters 1 (chaptersTbl afterFirstRun))) [] afterFirstRun
       = Some afterSecondRun"
    by (simp add: bulk_eval bulk_inputs)
  have h4: "0 < length (chaptersTbl (emptyBulk halfTranslated))"
    by (simp add: bulk_eval bulk_inputs)
  have h5: "truthy (translatedContent (chaptersTbl (emptyBulk halfTranslated) ! 0))"
    by (simp add: bulk_eval bulk_inputs)
  from start_touches_only_untranslated[OF h1 h2 h3 h4]
  show ?thesis using h1 h2 h3 h5
    by (simp add: bulk_eval bulk_inputs)
qed

text \<open>
  C3, as amended. Without a stop request and with every pause ended at some time, the
  run returns, and for every item \<open>j\<close> of its queue, whatever happened to the other items:
  the translator yields a string \<open>r\<close> (the response text, or a failure sentinel when the
  service rejects or answers with no text); when the write succeeds the chapter holds
  \<open>translatedContent = r\<close> and \<open>lastTranslated\<close>; when the write is rejected the chapter
  is unchanged and the failure is logged.
\<close>

theorem batch_item_outcomes:
  assumes keys: "distinct (map cid (chaptersTbl s))"
    and nostop: "\<forall>t. \<not> stopSignalCurrent e t"
    and resume: "\<forall>t. \<exists>u\<ge>t. \<not> bulkPausedRefCurrent e u"
    and q: "q = untranslated (liveChapters nid (chaptersTbl s))"
    and j: "j < length q"
    and r: "r = (case aiGenerateContent e j (translatePrompt (content (q ! j)) (glossaryWhere nid gt)) of
                   Rejects \<Rightarrow> errorGenerating
                 | Resolves t \<Rightarrow> orElse t translationFailed)"
  shows "\<exists>s'. startBulkTranslation e nid (Some (liveChapters nid (chaptersTbl s))) gt s = Some s'
           \<and> chaptersGet (cid (q ! j)) (chaptersTbl s')
               = Some (if chaptersUpdateResolves e j
                       then (q ! j)\<lparr>translatedContent := Some r, lastTranslated := Some (newDate e j)\<rparr>
                       else q ! j)
           \<and> (\<not> chaptersUpdateResolves e j \<longrightarrow> (title (q ! j), UpdateRejected) \<in> set (consoleErrors s'))"
proof -
  let ?chs = "liveChapters nid (chaptersTbl s)"
  let ?g = "glossaryWhere nid gt"
  have "\<forall>t. \<exists>u\<ge>t. \<not> bulkPausedRefCurrent e u \<or> stopSignalCurrent e u"
    using resume by blast
  then obtain s' where s': "startBulkTranslation e nid (Some ?chs) gt s = Some s'"
    using start_returns by blast
  from start_cases[OF s'] q obtain s0 s2 where
    c: "chaptersTbl s0 = chaptersTbl s" "consoleErrors s0 = consoleErrors s"
       "bulkLoop e ?g (length q) q 0 0 s0 = Some s2"
       "chaptersTbl s' = chaptersTbl s2" "consoleErrors s' = consoleErrors s2" by auto
  have tr: "translateChapterWithGlossary e (0 + j) (content (q ! j)) ?g = Resolves r"
    using r by (simp add: translate_value)
  have "q ! j \<in> set (chaptersTbl s)"
    using j q untranslated_subset[of nid "chaptersTbl s"] nth_mem[OF j] by blast
  then obtain k where k: "k < length (chaptersTbl s)" "chaptersTbl s ! k = q ! j"
    by (auto simp: in_set_conv_nth)
  have dq: "distinct (map cid q)" using keys q by (simp add: untranslated_distinct)
  have row: "chaptersTbl s2 ! k =
      (if chaptersUpdateResolves e (0 + j)
       then (chaptersTbl s0 ! k)\<lparr>translatedContent := Some r, lastTranslated := Some (newDate e (0 + j))\<rparr>
       else chaptersTbl s0 ! k)"
    using k c(1) by (intro bulkLoop_item[OF nostop c(3) dq j tr]) auto
  have m: "map cid (chaptersTbl s2) = map cid (chaptersTbl s)"
    using bulkLoop_untouched[OF c(3)] c(1) by simp
  then have d2: "distinct (map cid (chaptersTbl s2))" using keys by simp
  have k2: "k < length (chaptersTbl s2)" using m k(1) by (metis length_map)
  have "cid (chaptersTbl s2 ! k) = cid (q ! j)"
    using row k c(1) by (simp split: if_splits)
  then have "chaptersGet (cid (q ! j)) (chaptersTbl s2) = Some (chaptersTbl s2 ! k)"
    using chaptersGet_nth[OF d2 k2] by simp
  then have get: "chaptersGet (cid (q ! j)) (chaptersTbl s')
               = Some (if chaptersUpdateResolves e j
                       then (q ! j)\<lparr>translatedContent := Some r, lastTranslated := Some (newDate e j)\<rparr>
                       else q ! j)"
    using row k c(1,4) by simp
  have log: "\<not> chaptersUpdateResolves e j \<longrightarrow> (title (q ! j), UpdateRejected) \<in> set (consoleErrors s')"
    using bulkLoop_logs[OF nostop c(3) j] c(5) by simp
  show ?thesis using s' get log by blast
qed

theorem batch_item_outcomes_witness:
  "distinct (map cid (chaptersTbl (emptyBulk threeChapters)))
   \<and> (\<forall>t. \<not> stopSignalCurrent flakyStoreEnv t)
   \<and> (\<forall>t. \<exists>u\<ge>t. \<not> bulkPausedRefCurrent flakyStoreEnv u)
   \<and> aiGenerateContent flakyStoreEnv 0 (translatePrompt ''a'' []) = Rejects
   \<and> (\<exists>s'. startBulkTranslation flakyStoreEnv 1 (Some (liveChapters 1 threeChapters)) []
               (emptyBulk threeChapters) = Some s'
          \<and> chaptersGet 1 (chaptersTbl s') = Some (translatedChapter 1 ''a'' errorGenerating 1000))"
proof -
  have h1: "distinct (map cid (chaptersTbl (emptyBulk threeChapters)))"
    by (simp add: bulk_eval bulk_inputs)
  have h2: "\<forall>t. \<not> stopSignalCurrent flakyStoreEnv t"
    by (simp add: bulk_eval bulk_inputs)
  have h3: "\<forall>t. \<exists>u\<ge>t. \<not> bulkPausedRefCurrent flakyStoreEnv u"
    by (auto simp add: bulk_eval bulk_inputs)
  have h4: "threeChapters = untranslated (liveChapters 1 (chaptersTbl (emptyBulk threeChapters)))"
    by (simp add: bulk_eval bulk_inputs)
  have h5: "0 < length threeChapters" by (simp add: threeChapters_def)
  have h6: "errorGenerating =
      (case aiGenerateContent flakyStoreEnv 0
              (translatePrompt (content (threeChapters ! 0)) (glossaryWhere 1 [])) of
         Rejects \<Rightarrow> errorGenerating
       | Resolves t \<Rightarrow> orElse t translationFailed)"
    by (simp add: bulk_eval bulk_inputs)
  have h7: "aiGenerateContent flakyStoreEnv 0 (translatePrompt ''a'' []) = Rejects"
    by (simp add: bulk_eval bulk_inputs)
  from batch_item_outcomes[OF h1 h2 h3 h4 h5 h6]
  show ?thesis using h1 h2 h3 h7
    by (simp add: bulk_eval bulk_inputs)
qed

text \<open>
  C3 as stated fails: when the service rejects, the sentinel text is stored as the
  chapter's translation together with a time stamp, and nothing is logged.
\<close>

theorem failed_translation_is_persisted_counterexample:
  "map_option (\<lambda>s. (map translatedContent (chaptersTbl s), map lastTranslated (chaptersTbl s), consoleErrors s))
     (startBulkTranslation (quietEnv [] (\<lambda>k. Rejects)) 1
        (Some (liveChapters 1 [mkChapter 1 ''text''])) [] (emptyBulk [mkChapter 1 ''text'']))
   = Some ([Some errorGenerating], [Some 1000], [])"
  by (simp add: bulk_eval)

text \<open>
  C4 fails on the code. The stop flag ends the pause loop, but the loop body goes on to
  the translation without checking it again: with a stop issued during the pause before
  the second chapter, the second chapter is translated and stored after the stop, and
  only the third is left alone.
\<close>

theorem stop_during_pause_translates_one_more:
  "\<not> stopSignalCurrent stopDuringPauseEnv 1 \<and> bulkPausedRefCurrent stopDuringPauseEnv 1
   \<and> stopSignalCurrent stopDuringPauseEnv 2
   \<and> map_option (\<lambda>s. map translatedContent (chaptersTbl s))
       (startBulkTranslation stopDuringPauseEnv 1
          (Some (liveChapters 1 [mkChapter 1 ''a'', mkChapter 2 ''b'', mkChapter 3 ''c'']))
          [] (emptyBulk [mkChapter 1 ''a'', mkChapter 2 ''b'', mkChapter 3 ''c'']))
     = Some [Some ''translated'', Some ''translated'', None]"
  by (simp add: bulk_eval stopDuringPauseEnv_def)

text \<open>
  C2, as amended. The document translation always resolves with a plain non-empty
  string and no success flag: the response text when it is non-empty, the sentinel
  \<open>Translation failed.\<close> when the response has no text, the sentinel \<open>Error generating
  translation. Please check API Key or quota.\<close> when the service rejects.
\<close>

theorem translation_returns_bare_string:
  "\<exists>r. translateChapterWithGlossary e k c g = Resolves r \<and> r \<noteq> []
     \<and> r = (case aiGenerateContent e k (translatePrompt c g) of
              Rejects \<Rightarrow> errorGenerating
            | Resolves t \<Rightarrow> orElse t translationFailed)"
  using translate_resolves[of e k c g] by (auto simp: translate_value)

text \<open>
  C2 as stated fails: a rejected request and a successful response are returned to the
  caller as the same value, so the result carries no success flag.
\<close>

theorem failure_indistinguishable_counterexample:
  "aiGenerateContent (quietEnv [] (\<lambda>k. Rejects)) 0 (translatePrompt ''text'' []) = Rejects
   \<and> aiGenerateContent (quietEnv [] (\<lambda>k. Resolves (Some errorGenerating))) 0 (translatePrompt ''text'' [])
       = Resolves (Some errorGenerating)
   \<and> translateChapterWithGlossary (quietEnv [] (\<lambda>k. Rejects)) 0 ''text'' [] = Resolves errorGenerating
   \<and> translateChapterWithGlossary (quietEnv [] (\<lambda>k. Resolves (Some errorGenerating))) 0 ''text'' []
       = Resolves errorGenerating"
  by (simp add: translate_value quietEnv_def orElse_def errorGenerating_def)

text \<open>
  C10. The document translation resolves with a string for every environment, chapter
  text and glossary; and every entry that a batch run adds to the error log comes from an
  item whose write to the chapters table was rejected, never from the translator.
\<close>

theorem translator_never_rejects:
  "(\<exists>r. translateChapterWithGlossary e k c g = Resolves r)
   \<and> startBulkTranslation e nid None gt s = Some s
   \<and> (startBulkTranslation e nid (Some chs) gt s = Some s' \<longrightarrow>
        (\<exists>new. consoleErrors s' = consoleErrors s @ new \<and>
           (\<forall>x\<in>set new. \<exists>j<length (untranslated chs).
              \<not> chaptersUpdateResolves e j \<and> x = (title (untranslated chs ! j), UpdateRejected))))"
proof (intro conjI impI)
  show "\<exists>r. translateChapterWithGlossary e k c g = Resolves r"
    using translate_resolves by blast
  show "startBulkTranslation e nid None gt s = Some s"
    by (simp add: startBulkTranslation_def)
  assume "startBulkTranslation e nid (Some chs) gt s = Some s'"
  from start_cases[OF this] obtain s0 s2 where
    c: "consoleErrors s0 = consoleErrors s"
       "bulkLoop e (glossaryWhere nid gt) (length (untranslated chs)) (untranslated chs) 0 0 s0 = Some s2"
       "consoleErrors s' = consoleErrors s2" by blast
  from bulkLoop_errors[OF c(2)] c(1,3)
  show "\<exists>new. consoleErrors s' = consoleErrors s @ new \<and>
           (\<forall>x\<in>set new. \<exists>j<length (untranslated chs).
              \<not> chaptersUpdateResolves e j \<and> x = (title (untranslated chs ! j), UpdateRejected))"
    by simp
qed

theorem translator_never_rejects_witness:
  "startBulkTranslation flakyStoreEnv 1 (Some (liveChapters 1 threeChapters)) [] (emptyBulk threeChapters)
     = Some afterFlakyRun
   \<and> consoleErrors afterFlakyRun = consoleErrors (emptyBulk threeChapters) @ [(''Chapter'', UpdateRejected)]
   \<and> \<not> chaptersUpdateResolves flakyStoreEnv 1
   \<and> aiGenerateContent flakyStoreEnv 0 (translatePrompt ''a'' []) = Rejects
   \<and> translateChapterWithGlossary flakyStoreEnv 0 ''a'' [] = Resolves errorGenerating"
  using translator_never_rejects
    [of flakyStoreEnv 0 "''a''" "[]" 1 "[]" "emptyBulk threeChapters" "liveChapters 1 threeChapters"
        afterFlakyRun]
    flaky_run
  by (simp add: bulk_eval bulk_inputs)

end
